theory Spec2Isabelle
  imports Main
begin

section \<open>Syntax tree nodes as objects in a store\<close>

text \<open>
  The session keys every association (pending mutations, parent index) by node identity and
  the commit rewrites the tree in place, so nodes live in a store: a reference is a store
  address, an object has its \<open>type\<close> tag and its fields in the order of the Shift
  specification. A field holds a string (an identifier's \<open>name\<close>), one value that is a
  node, \<open>null\<close> or \<open>undefined\<close>, or an array of such values.
\<close>

type_synonym ref = nat

datatype jsval = Undefined | Null | NodeRef ref

datatype fval = FStr string | FOne jsval | FArr "jsval list"

record obj =
  otype :: string
  ofields :: "(string \<times> fval) list"

type_synonym heap = "ref \<rightharpoonup> obj"

definition getField :: "heap \<Rightarrow> ref \<Rightarrow> string \<Rightarrow> fval option" where
  "getField h r k = (case h r of None \<Rightarrow> None | Some ob \<Rightarrow> map_of (ofields ob) k)"

text \<open>An assignment \<open>o[k] = v\<close>: the property is overwritten where it is, or added last.\<close>

fun updField :: "string \<Rightarrow> fval \<Rightarrow> (string \<times> fval) list \<Rightarrow> (string \<times> fval) list" where
  "updField k v [] = [(k, v)]"
| "updField k v ((k', v') # fs) =
     (if k' = k then (k, v) # fs else (k', v') # updField k v fs)"

definition setField :: "heap \<Rightarrow> ref \<Rightarrow> string \<Rightarrow> fval \<Rightarrow> heap" where
  "setField h r k v =
     (case h r of None \<Rightarrow> h
      | Some ob \<Rightarrow> h(r \<mapsto> ob\<lparr>ofields := updField k v (ofields ob)\<rparr>))"

definition nodeType :: "heap \<Rightarrow> ref \<Rightarrow> string" where
  "nodeType h r = (case h r of None \<Rightarrow> [] | Some ob \<Rightarrow> otype ob)"

text \<open>The node-valued children of a field and of an object, in traversal order.\<close>

fun cellRefs :: "jsval list \<Rightarrow> ref list" where
  "cellRefs [] = []"
| "cellRefs (NodeRef r # cs) = r # cellRefs cs"
| "cellRefs (_ # cs) = cellRefs cs"

fun fieldRefs :: "fval \<Rightarrow> ref list" where
  "fieldRefs (FStr _) = []"
| "fieldRefs (FOne c) = cellRefs [c]"
| "fieldRefs (FArr cs) = cellRefs cs"

definition childRefs :: "heap \<Rightarrow> ref \<Rightarrow> ref list" where
  "childRefs h n =
     (case h n of None \<Rightarrow> [] | Some ob \<Rightarrow> concat (map (\<lambda>(k, v). fieldRefs v) (ofields ob)))"

fun startsWith :: "string \<Rightarrow> string \<Rightarrow> bool" where
  "startsWith [] t = True"
| "startsWith (c # s) [] = False"
| "startsWith (c # s) (d # t) = (c = d \<and> startsWith s t)"

fun containsStr :: "string \<Rightarrow> string \<Rightarrow> bool" where
  "containsStr s [] = startsWith s []"
| "containsStr s (d # t) = (startsWith s (d # t) \<or> containsStr s t)"

text \<open>
  Modelled from the spec: \<open>isStatement\<close> of \<open>util.ts\<close> is not among the sources. The spec
  calls its argument a "statement-like node" and the session's error message names
  "Statements or Declarations": a node whose type tag contains \<open>Statement\<close> or
  \<open>Declaration\<close>. A value that is no node is no statement.
\<close>

definition isStatement :: "heap \<Rightarrow> jsval \<Rightarrow> bool" where
  "isStatement h v =
     (case v of
        NodeRef r \<Rightarrow> containsStr ''Statement'' (nodeType h r) \<or> containsStr ''Declaration'' (nodeType h r)
      | _ \<Rightarrow> False)"


section \<open>Scopes, sessions and the world\<close>

record variable =
  vname :: string
  declarations :: "ref list"
  references :: "ref list"

datatype scope = Scope (astNode: ref) (variableList: "variable list") (children: "scope list")

record scopeLookup =
  scope :: scope
  variableMap :: "ref \<rightharpoonup> variable list"

record insertion =
  after :: bool
  statement :: jsval

type_synonym sid = nat

record session =
  nodes :: "jsval list"
  x_root :: "ref option"
  globalSession :: sid
  autoCleanup :: bool
  dirty :: bool
  scopeMap :: "variable \<rightharpoonup> scope"
  scopeOwnerMap :: "ref \<rightharpoonup> scope"
  parentMap :: "ref \<rightharpoonup> ref"
  variables :: "variable set"
  replacements :: "ref \<rightharpoonup> jsval"
  deletions :: "ref set"
  insertions :: "ref \<rightharpoonup> insertion"
  lookupTable :: "scopeLookup option"

text \<open>
  Sessions are objects too: a subsession points at its global session. The world is the node
  store, the session objects and the next free session address.
\<close>

record world =
  heap :: heap
  sessions :: "sid \<Rightarrow> session"
  nextSid :: sid

text \<open>
  The external collaborators of the spec's section 6, with fixed contracts: the parser (an
  error message, or the store with the parsed tree and its Script node), the scope analyzer
  with its lookup table, the selector matcher and the printer; and \<open>copy\<close> of \<open>util.ts\<close>,
  which is not among the sources and is taken as a parameter as well.
\<close>

record ext =
  parseScript :: "heap \<Rightarrow> string \<Rightarrow> string + heap \<times> ref"
  shiftScope :: "heap \<Rightarrow> ref \<Rightarrow> scopeLookup"
  copy :: "heap \<Rightarrow> jsval \<Rightarrow> heap \<times> jsval"
  query :: "heap \<Rightarrow> jsval list \<Rightarrow> string \<Rightarrow> ref list"
  codegen :: "heap \<Rightarrow> jsval \<Rightarrow> string"

datatype error = RefactorError string | Error string | TypeError string | ParseError string

definition updSession :: "world \<Rightarrow> sid \<Rightarrow> (session \<Rightarrow> session) \<Rightarrow> world" where
  "updSession w s f = w\<lparr>sessions := (sessions w)(s := f (sessions w s))\<rparr>"

text \<open>The field initialisers of the class.\<close>

definition newSession :: session where
  "newSession =
     \<lparr>nodes = [], x_root = None, globalSession = 0, autoCleanup = True, dirty = False,
      scopeMap = Map.empty, scopeOwnerMap = Map.empty, parentMap = Map.empty,
      variables = {}, replacements = Map.empty, deletions = {}, insertions = Map.empty,
      lookupTable = None\<rparr>"


section \<open>Parent index\<close>

text \<open>
  Modelled from the spec: \<open>buildParentMap\<close> of \<open>util.ts\<close> is not among the sources. "Built
  by one full traversal of the managed roots, recording each visited node's immediate
  parent." The traversal is a worklist loop over the store; on a cyclic store it does not
  return.
\<close>

partial_function (option) buildParents ::
  "heap \<Rightarrow> (ref \<times> ref option) list \<Rightarrow> (ref \<rightharpoonup> ref) \<Rightarrow> (ref \<rightharpoonup> ref) option" where
  "buildParents h wl pm =
     (case wl of
        [] \<Rightarrow> Some pm
      | (n, p) # rest \<Rightarrow>
          buildParents h (map (\<lambda>c. (c, Some n)) (childRefs h n) @ rest)
            (case p of None \<Rightarrow> pm | Some q \<Rightarrow> pm(n \<mapsto> q)))"

definition buildParentMap :: "heap \<Rightarrow> jsval list \<Rightarrow> (ref \<rightharpoonup> ref) option" where
  "buildParentMap h ns = buildParents h (map (\<lambda>r. (r, None)) (cellRefs ns)) Map.empty"

definition rebuildParentMap :: "world \<Rightarrow> sid \<Rightarrow> world option" where
  "rebuildParentMap w s =
     (case buildParentMap (heap w) (nodes (sessions w s)) of
        None \<Rightarrow> None
      | Some pm \<Rightarrow> Some (updSession w s (\<lambda>x. x\<lparr>parentMap := pm\<rparr>)))"


section \<open>Scope table\<close>

text \<open>The getter \<open>root\<close>: the session's own root, or the one of its global session.\<close>

partial_function (option) root :: "world \<Rightarrow> sid \<Rightarrow> (error + ref) option" where
  "root w s =
     (case x_root (sessions w s) of
        Some r \<Rightarrow> Some (Inr r)
      | None \<Rightarrow>
          if s = globalSession (sessions w s) then Some (Inl (Error ''why''))
          else root w (globalSession (sessions w s)))"

text \<open>The local function \<open>recurse\<close> of \<open>_rebuildScopeMap\<close>.\<close>

fun recurse :: "scope \<Rightarrow> session \<Rightarrow> session" where
  "recurse (Scope a vs cs) x =
     fold recurse cs
       (fold (\<lambda>v y. y\<lparr>variables := insert v (variables y),
                        scopeMap := (scopeMap y)(v \<mapsto> Scope a vs cs)\<rparr>) vs
          (x\<lparr>scopeOwnerMap := (scopeOwnerMap x)(a \<mapsto> Scope a vs cs)\<rparr>))"

text \<open>\<open>_rebuildScopeMap\<close>, called with the lookup table that \<open>getLookupTable\<close> has just cached.\<close>

definition rebuildScopeMap :: "scopeLookup \<Rightarrow> session \<Rightarrow> session" where
  "rebuildScopeMap lt x = recurse (scope lt) (x\<lparr>scopeMap := Map.empty, variables := {}\<rparr>)"

definition getLookupTable :: "ext \<Rightarrow> world \<Rightarrow> sid \<Rightarrow> (error + world \<times> scopeLookup) option" where
  "getLookupTable e w s =
     (case lookupTable (sessions w s) of
        Some lt \<Rightarrow> Some (Inr (w, lt))
      | None \<Rightarrow>
          (case root w s of
             None \<Rightarrow> None
           | Some (Inl err) \<Rightarrow> Some (Inl err)
           | Some (Inr r) \<Rightarrow>
               let lt = shiftScope e (heap w) r
               in Some (Inr (updSession w s (\<lambda>x. rebuildScopeMap lt (x\<lparr>lookupTable := Some lt\<rparr>)), lt))))"


section \<open>Constructing sessions\<close>

datatype source = SourceText string | SingleNode ref | NodeList "(string + jsval) list"

record config =
  autoCleanupCfg :: "bool option"
  parentSession :: "sid option"

fun nodesOnly :: "(string + jsval) list \<Rightarrow> jsval list" where
  "nodesOnly [] = []"
| "nodesOnly (Inl _ # xs) = nodesOnly xs"
| "nodesOnly (Inr v # xs) = v # nodesOnly xs"

text \<open>
  The first part of the constructor, up to \<open>this.nodes = nodes\<close>: the store after parsing
  and the new session object, or the error thrown. \<open>this\<close> is the address of the new object.
\<close>

definition constructNodes :: "ext \<Rightarrow> world \<Rightarrow> sid \<Rightarrow> source \<Rightarrow> config \<Rightarrow> error + heap \<times> session" where
  "constructNodes e w this src cfg =
     (case parentSession cfg of
        Some p \<Rightarrow>
          (let x = newSession\<lparr>globalSession := globalSession (sessions w p)\<rparr> in
           case src of
             SourceText _ \<Rightarrow> Inl (Error ''Can not initialize child RefactorSession with a new AST'')
           | NodeList xs \<Rightarrow> Inr (heap w, x\<lparr>nodes := nodesOnly xs\<rparr>)
           | SingleNode r \<Rightarrow> Inr (heap w, x\<lparr>nodes := [NodeRef r]\<rparr>))
      | None \<Rightarrow>
          (case src of
             SourceText t \<Rightarrow>
               (case parseScript e (heap w) t of
                  Inl msg \<Rightarrow> Inl (RefactorError (''Could not parse passed source: '' @ msg))
                | Inr (h, tree) \<Rightarrow>
                    Inr (h, newSession\<lparr>x_root := Some tree, globalSession := this,
                                        nodes := [NodeRef tree]\<rparr>))
           | NodeList _ \<Rightarrow>
               Inl (RefactorError
                 ''Must initialize root session with a JavaScript source program (JS source or single Node)'')
           | SingleNode r \<Rightarrow>
               Inr (heap w, newSession\<lparr>x_root := Some r, globalSession := this,
                                         nodes := [NodeRef r]\<rparr>)))"

text \<open>\<open>if (config.autoCleanup) this.autoCleanup = config.autoCleanup\<close>\<close>

definition applyAutoCleanup :: "config \<Rightarrow> session \<Rightarrow> session" where
  "applyAutoCleanup cfg x =
     (case autoCleanupCfg cfg of
        Some True \<Rightarrow> x\<lparr>autoCleanup := True\<rparr>
      | _ \<Rightarrow> x)"

definition construct :: "ext \<Rightarrow> world \<Rightarrow> source \<Rightarrow> config \<Rightarrow> (error + world \<times> sid) option" where
  "construct e w src cfg =
     (let this = nextSid w in
      case constructNodes e w this src cfg of
        Inl err \<Rightarrow> Some (Inl err)
      | Inr (h, x) \<Rightarrow>
          (let w1 = w\<lparr>heap := h, sessions := (sessions w)(this := applyAutoCleanup cfg x),
                      nextSid := Suc this\<rparr>
           in case rebuildParentMap w1 this of
                None \<Rightarrow> None
              | Some w2 \<Rightarrow>
                  (case getLookupTable e w2 this of
                     None \<Rightarrow> None
                   | Some (Inl err) \<Rightarrow> Some (Inl err)
                   | Some (Inr (w3, lt)) \<Rightarrow> Some (Inr (w3, this)))))"


section \<open>The tree rewrite utility\<close>

text \<open>
  \<open>traverser.replace(root, {leave})\<close> of the external rewrite utility: a worklist of elements
  (a node with the reference it was read from) and sentinels, and the list of the elements
  entered and not yet left. A reference is the container the node was read from and the key in
  it: the wrapper of the root, a field of a node, or an index of an array field. The visitor
  works on its own state and on the store; it returns the value it returns in the source
  (\<open>undefined\<close> for none) and whether it called \<open>this.remove()\<close>. The child keys of a node
  are its fields that hold a node or an array, in the order of the object; a replacement or an
  inserted node is not visited in the same traversal.
\<close>

datatype slot = RootSlot | FieldSlot ref string | ElemSlot ref string int

datatype element = Sentinel | Element ref slot

record 's tstate =
  theap :: heap
  worklist :: "element list"
  leavelist :: "(ref \<times> slot) list"
  outerRoot :: jsval
  ustate :: 's

type_synonym 's visitor = "'s \<Rightarrow> heap \<Rightarrow> ref \<Rightarrow> jsval \<Rightarrow> 's \<times> heap \<times> jsval \<times> bool"

text \<open>Array operations of the host language, with their behaviour out of range.\<close>

definition spliceStart :: "int \<Rightarrow> 'a list \<Rightarrow> nat" where
  "spliceStart i xs =
     (let n = int (length xs) in nat (if i < 0 then max (n + i) 0 else min i n))"

definition spliceRemove :: "int \<Rightarrow> 'a list \<Rightarrow> 'a list" where
  "spliceRemove i xs = take (spliceStart i xs) xs @ drop (Suc (spliceStart i xs)) xs"

definition spliceInsert :: "int \<Rightarrow> 'a \<Rightarrow> 'a list \<Rightarrow> 'a list" where
  "spliceInsert i x xs = take (spliceStart i xs) xs @ x # drop (spliceStart i xs) xs"

definition arraySet :: "int \<Rightarrow> jsval \<Rightarrow> jsval list \<Rightarrow> jsval list" where
  "arraySet i v xs =
     (if i < 0 then xs
      else if nat i < length xs then xs[nat i := v]
      else xs @ replicate (nat i - length xs) Undefined @ [v])"

fun indexFrom :: "int \<Rightarrow> 'a \<Rightarrow> 'a list \<Rightarrow> int" where
  "indexFrom i v [] = - 1"
| "indexFrom i v (x # xs) = (if x = v then i else indexFrom (i + 1) v xs)"

definition indexOf :: "'a \<Rightarrow> 'a list \<Rightarrow> int" where
  "indexOf v xs = indexFrom 0 v xs"

text \<open>The elements pushed for the children of an entered node, first child on top.\<close>

fun arrElems :: "ref \<Rightarrow> string \<Rightarrow> int \<Rightarrow> jsval list \<Rightarrow> element list" where
  "arrElems p k i [] = []"
| "arrElems p k i (NodeRef c # cs) = Element c (ElemSlot p k i) # arrElems p k (i + 1) cs"
| "arrElems p k i (_ # cs) = arrElems p k (i + 1) cs"

fun fieldElems :: "ref \<Rightarrow> string \<times> fval \<Rightarrow> element list" where
  "fieldElems p (k, FStr _) = []"
| "fieldElems p (k, FOne (NodeRef c)) = [Element c (FieldSlot p k)]"
| "fieldElems p (k, FOne _) = []"
| "fieldElems p (k, FArr cs) = arrElems p k 0 cs"

definition childElems :: "heap \<Rightarrow> ref \<Rightarrow> element list" where
  "childElems h n =
     (case h n of None \<Rightarrow> [] | Some ob \<Rightarrow> concat (map (fieldElems n) (ofields ob)))"

text \<open>\<open>Reference.replace\<close>: \<open>this.parent[this.key] = node\<close>.\<close>

definition slotReplace :: "slot \<Rightarrow> jsval \<Rightarrow> 's tstate \<Rightarrow> 's tstate" where
  "slotReplace sl v st =
     (case sl of
        RootSlot \<Rightarrow> st\<lparr>outerRoot := v\<rparr>
      | FieldSlot p k \<Rightarrow> st\<lparr>theap := setField (theap st) p k (FOne v)\<rparr>
      | ElemSlot p k i \<Rightarrow>
          (case getField (theap st) p k of
             Some (FArr xs) \<Rightarrow> st\<lparr>theap := setField (theap st) p k (FArr (arraySet i v xs))\<rparr>
           | _ \<Rightarrow> st))"

text \<open>
  After a removal from an array, the keys of the elements of the same array that are still on
  the worklist are decreased, from the top, up to the first one with a smaller key.
\<close>

fun adjustKeys :: "ref \<Rightarrow> string \<Rightarrow> int \<Rightarrow> element list \<Rightarrow> element list" where
  "adjustKeys p k key [] = []"
| "adjustKeys p k key (Element n (ElemSlot p' k' i) # wl) =
     (if p' = p \<and> k' = k
      then (if i < key then Element n (ElemSlot p' k' i) # wl
            else Element n (ElemSlot p' k' (i - 1)) # adjustKeys p k key wl)
      else Element n (ElemSlot p' k' i) # adjustKeys p k key wl)"
| "adjustKeys p k key (el # wl) = el # adjustKeys p k key wl"

text \<open>\<open>removeElem\<close>: out of an array by \<open>splice\<close>, otherwise the slot becomes \<open>null\<close>.\<close>

definition removeElem :: "slot \<Rightarrow> 's tstate \<Rightarrow> 's tstate" where
  "removeElem sl st =
     (case sl of
        ElemSlot p k i \<Rightarrow>
          (case getField (theap st) p k of
             Some (FArr xs) \<Rightarrow>
               st\<lparr>theap := setField (theap st) p k (FArr (spliceRemove i xs)),
                  worklist := adjustKeys p k i (worklist st)\<rparr>
           | _ \<Rightarrow> st)
      | _ \<Rightarrow> slotReplace sl Null st)"

text \<open>
  One round of the loop. A sentinel on top: the element on top of the leave list is left, its
  parent being the node below it on that list. A node on top: it is entered (the session
  passes no \<open>enter\<close>), its children are pushed over a sentinel.
\<close>

definition step :: "'s visitor \<Rightarrow> 's tstate \<Rightarrow> 's tstate" where
  "step leave st =
     (case worklist st of
        [] \<Rightarrow> st
      | Sentinel # wl \<Rightarrow>
          (case leavelist st of
             [] \<Rightarrow> st\<lparr>worklist := wl\<rparr>
           | (n, sl) # ll \<Rightarrow>
               (case leave (ustate st) (theap st) n
                       (case ll of [] \<Rightarrow> Undefined | (p, _) # _ \<Rightarrow> NodeRef p) of
                  (u, h, target, rm) \<Rightarrow>
                    (let st1 = st\<lparr>theap := h, worklist := wl, leavelist := ll, ustate := u\<rparr>;
                         st2 = (if target \<noteq> Undefined then slotReplace sl target st1 else st1)
                     in if rm then removeElem sl st2 else st2)))
      | Element n sl # wl \<Rightarrow>
          st\<lparr>worklist := childElems (theap st) n @ Sentinel # wl,
             leavelist := (n, sl) # leavelist st\<rparr>)"

partial_function (option) replaceLoop :: "'s visitor \<Rightarrow> 's tstate \<Rightarrow> 's tstate option" where
  "replaceLoop leave st =
     (if worklist st = [] then Some st else replaceLoop leave (step leave st))"

definition initState :: "'s \<Rightarrow> heap \<Rightarrow> ref \<Rightarrow> 's tstate" where
  "initState u h r =
     \<lparr>theap = h, worklist = [Element r RootSlot], leavelist = [(r, RootSlot)],
      outerRoot = NodeRef r, ustate = u\<rparr>"

definition traverserReplace ::
  "'s visitor \<Rightarrow> 's \<Rightarrow> heap \<Rightarrow> jsval \<Rightarrow> ('s \<times> heap \<times> jsval) option" where
  "traverserReplace leave u h v =
     (case v of
        NodeRef r \<Rightarrow>
          (case replaceLoop leave (initState u h r) of
             None \<Rightarrow> None
           | Some st \<Rightarrow> Some (ustate st, theap st, outerRoot st))
      | _ \<Rightarrow> Some (u, h, v))"


section \<open>The mutation queue and the commit\<close>

text \<open>\<open>node.declaration.declarators.length === 0\<close>\<close>

definition emptyDeclarators :: "heap \<Rightarrow> ref \<Rightarrow> bool" where
  "emptyDeclarators h n =
     (case getField h n ''declaration'' of
        Some (FOne (NodeRef d)) \<Rightarrow>
          (case getField h d ''declarators'' of Some (FArr ds) \<Rightarrow> ds = [] | _ \<Rightarrow> False)
      | _ \<Rightarrow> False)"

text \<open>
  The \<open>leave\<close> function of \<open>cleanup\<close>, on the global session \<open>_this\<close>. \<open>statements\<close>, in
  every node type that has it, is an array: \<open>statementsOf\<close> is the parent with its
  \<open>statements\<close> when \<open>'statements' in parent\<close>.
\<close>

definition statementsOf :: "heap \<Rightarrow> jsval \<Rightarrow> (ref \<times> jsval list) option" where
  "statementsOf h parent =
     (case parent of
        NodeRef p \<Rightarrow>
          (case getField h p ''statements'' of Some (FArr ss) \<Rightarrow> Some (p, ss) | _ \<Rightarrow> None)
      | _ \<Rightarrow> None)"

definition insertStatement :: "session \<Rightarrow> heap \<Rightarrow> ref \<Rightarrow> jsval \<Rightarrow> session \<times> heap" where
  "insertStatement x h node parent =
     (case insertions x node of
        None \<Rightarrow> (x, h)
      | Some ins \<Rightarrow>
          if isStatement h (NodeRef node) then
            (case statementsOf h parent of
               Some (p, ss) \<Rightarrow>
                 (x\<lparr>insertions := (insertions x)(node := None)\<rparr>,
                  setField h p ''statements''
                    (FArr (spliceInsert
                       (indexOf (NodeRef node) ss + (if after ins then 1 else 0))
                       (statement ins) ss)))
             | None \<Rightarrow> (x, h))
          else (x, h))"

definition leave :: "session visitor" where
  "leave x h node parent =
     (if nodeType h node = ''VariableDeclarationStatement'' \<and> emptyDeclarators h node
      then (x, h, Undefined, True)
      else
        (case replacements x node of
           Some newNode \<Rightarrow> (x\<lparr>replacements := (replacements x)(node := None)\<rparr>, h, newNode, False)
         | None \<Rightarrow>
             (case insertStatement x h node parent of
                (x1, h1) \<Rightarrow>
                  if node \<in> deletions x1
                  then (x1\<lparr>replacements := (replacements x1)(node := None)\<rparr>, h1, Undefined, True)
                  else (x1, h1, Undefined, False))))"

text \<open>
  Where the traversal stands: \<open>leaving\<close> is the node that the next round leaves, with the
  parent it passes to the visitor. A queued replacement of a node is applied in the round that
  leaves the node and reaches \<open>return newNode\<close>; a queued insertion at a node is applied in
  the round that leaves the node and reaches the \<open>splice\<close>.
\<close>

definition leaving :: "'s tstate \<Rightarrow> (ref \<times> jsval) option" where
  "leaving st =
     (case worklist st of
        Sentinel # _ \<Rightarrow>
          (case leavelist st of
             [] \<Rightarrow> None
           | (n, _) # ll \<Rightarrow> Some (n, case ll of [] \<Rightarrow> Undefined | (p, _) # _ \<Rightarrow> NodeRef p))
      | _ \<Rightarrow> None)"

definition emptyDeclaration :: "heap \<Rightarrow> ref \<Rightarrow> bool" where
  "emptyDeclaration h n =
     (nodeType h n = ''VariableDeclarationStatement'' \<and> emptyDeclarators h n)"

definition replacementApplied :: "session tstate \<Rightarrow> ref \<Rightarrow> bool" where
  "replacementApplied st n =
     (case leaving st of
        None \<Rightarrow> False
      | Some (m, p) \<Rightarrow>
          m = n \<and> \<not> emptyDeclaration (theap st) n \<and> replacements (ustate st) n \<noteq> None)"

definition insertionApplied :: "session tstate \<Rightarrow> ref \<Rightarrow> bool" where
  "insertionApplied st n =
     (case leaving st of
        None \<Rightarrow> False
      | Some (m, p) \<Rightarrow>
          m = n \<and> \<not> emptyDeclaration (theap st) n \<and> replacements (ustate st) n = None \<and>
          insertions (ustate st) n \<noteq> None \<and> isStatement (theap st) (NodeRef n) \<and>
          statementsOf (theap st) p \<noteq> None)"

text \<open>\<open>this.nodes.map(node => traverser.replace(node, ...))\<close>\<close>

fun mapReplace :: "session \<Rightarrow> heap \<Rightarrow> jsval list \<Rightarrow> (session \<times> heap \<times> jsval list) option" where
  "mapReplace x h [] = Some (x, h, [])"
| "mapReplace x h (n # ns) =
     (case traverserReplace leave x h n of
        None \<Rightarrow> None
      | Some (x1, h1, r) \<Rightarrow>
          (case mapReplace x1 h1 ns of
             None \<Rightarrow> None
           | Some (x2, h2, rs) \<Rightarrow> Some (x2, h2, r # rs)))"

text \<open>The body of \<open>cleanup\<close> on the global session, from the traversal on.\<close>

definition commit :: "world \<Rightarrow> sid \<Rightarrow> world option" where
  "commit w g =
     (case mapReplace (sessions w g) (heap w) (nodes (sessions w g)) of
        None \<Rightarrow> None
      | Some (x1, h1, result) \<Rightarrow>
          (case rebuildParentMap
                  (w\<lparr>heap := h1, sessions := (sessions w)(g := x1\<lparr>lookupTable := None\<rparr>)\<rparr>) g of
             None \<Rightarrow> None
           | Some w2 \<Rightarrow> Some (updSession w2 g (\<lambda>y. y\<lparr>dirty := False, nodes := result\<rparr>))))"

partial_function (option) cleanup :: "world \<Rightarrow> sid \<Rightarrow> world option" where
  "cleanup w s =
     (if s \<noteq> globalSession (sessions w s) then cleanup w (globalSession (sessions w s))
      else if \<not> dirty (sessions w s) then Some w
      else commit w s)"

definition conditionalCleanup :: "world \<Rightarrow> sid \<Rightarrow> world option" where
  "conditionalCleanup w s = (if autoCleanup (sessions w s) then cleanup w s else Some w)"

partial_function (option) queueDeletion :: "world \<Rightarrow> sid \<Rightarrow> ref \<Rightarrow> world option" where
  "queueDeletion w s node =
     (if s \<noteq> globalSession (sessions w s) then queueDeletion w (globalSession (sessions w s)) node
      else Some (updSession w s (\<lambda>x. x\<lparr>dirty := True, deletions := insert node (deletions x)\<rparr>)))"

partial_function (option) queueReplacement :: "world \<Rightarrow> sid \<Rightarrow> ref \<Rightarrow> jsval \<Rightarrow> world option" where
  "queueReplacement w s from to =
     (if s \<noteq> globalSession (sessions w s)
      then queueReplacement w (globalSession (sessions w s)) from to
      else Some (updSession w s
                   (\<lambda>x. x\<lparr>dirty := True, replacements := (replacements x)(from \<mapsto> to)\<rparr>)))"


section \<open>Selections and mutating calls\<close>

datatype selectorOrNode = Selector string | SelNode ref | SelNodes "jsval list"

text \<open>
  Modelled from the spec: \<open>findNodes\<close> of \<open>util.ts\<close> is not among the sources. "A selection
  (selector string, explicit node, or nested session) resolves to a list of target nodes via
  the Query Delegation component."
\<close>

definition findNodes :: "ext \<Rightarrow> heap \<Rightarrow> jsval list \<Rightarrow> selectorOrNode \<Rightarrow> ref list" where
  "findNodes e h ns sel =
     (case sel of
        Selector q \<Rightarrow> query e h ns q
      | SelNode r \<Rightarrow> [r]
      | SelNodes vs \<Rightarrow> cellRefs vs)"

fun queueDeletions :: "world \<Rightarrow> sid \<Rightarrow> ref list \<Rightarrow> world option" where
  "queueDeletions w s [] = Some w"
| "queueDeletions w s (n # ns) =
     (case queueDeletion w s n of None \<Rightarrow> None | Some w1 \<Rightarrow> queueDeletions w1 s ns)"

definition delete :: "ext \<Rightarrow> world \<Rightarrow> sid \<Rightarrow> selectorOrNode \<Rightarrow> world option" where
  "delete e w s sel =
     (case queueDeletions w s (findNodes e (heap w) (nodes (sessions w s)) sel) of
        None \<Rightarrow> None
      | Some w1 \<Rightarrow> conditionalCleanup w1 s)"

text \<open>
  A replacer is a function of the node, a node, a source text, or any other value; a replacer
  function returns a promise, a node, a string, or any other value (kept as printed).
\<close>

datatype replacerResult = RvPromise | RvNode ref | RvString string | RvOther string

datatype replacer =
  ReplacerFn "heap \<Rightarrow> ref \<Rightarrow> replacerResult" | ReplacerNode ref | ReplacerText string | ReplacerOther

text \<open>\<open>tree.statements[0]\<close> and \<open>statement.expression\<close>\<close>

definition firstStatement :: "heap \<Rightarrow> ref \<Rightarrow> jsval" where
  "firstStatement h tree =
     (case getField h tree ''statements'' of Some (FArr (st # _)) \<Rightarrow> st | _ \<Rightarrow> Undefined)"

definition expressionOf :: "heap \<Rightarrow> ref \<Rightarrow> jsval" where
  "expressionOf h st = (case getField h st ''expression'' of Some (FOne v) \<Rightarrow> v | _ \<Rightarrow> Undefined)"

text \<open>
  Modelled from the spec: \<open>extractStatement\<close> and \<open>extractExpression\<close> of \<open>util.ts\<close> are not
  among the sources. A source-text fragment is "parsed and, depending on whether the target
  is a statement or an expression position, narrowed to a single statement or single
  expression"; one that "resolves to the wrong syntactic category" is an invalid replacement
  value, surfaced as a failure.
\<close>

definition extractStatement :: "heap \<Rightarrow> ref \<Rightarrow> error + jsval" where
  "extractStatement h tree =
     (if isStatement h (firstStatement h tree) then Inr (firstStatement h tree)
      else Inl (RefactorError ''Can not replace a statement with the parsed source''))"

definition extractExpression :: "heap \<Rightarrow> ref \<Rightarrow> error + jsval" where
  "extractExpression h tree =
     (case firstStatement h tree of
        NodeRef st \<Rightarrow>
          if nodeType h st = ''ExpressionStatement'' then Inr (expressionOf h st)
          else Inl (RefactorError ''Can not replace an expression with the parsed source'')
      | _ \<Rightarrow> Inl (RefactorError ''Can not replace an expression with the parsed source''))"

text \<open>
  The body of the \<open>map\<close> callback of \<open>replace\<close> up to the queueing: the replacement of one
  node, with the store after parsing and copying, or the error thrown. \<open>script\<close> is
  \<open>replacementScript\<close>, which is set whenever the replacer is a source text.
\<close>

definition replacementOf ::
  "ext \<Rightarrow> heap \<Rightarrow> replacer \<Rightarrow> ref option \<Rightarrow> ref \<Rightarrow> error + heap \<times> jsval" where
  "replacementOf e h rp script node =
     (case rp of
        ReplacerFn f \<Rightarrow>
          (case f h node of
             RvPromise \<Rightarrow>
               Inl (RefactorError ''Promise returned from replacer function, use .replaceAsync() instead.'')
           | RvNode r \<Rightarrow> Inr (h, NodeRef r)
           | RvString t \<Rightarrow>
               (case parseScript e h t of
                  Inl msg \<Rightarrow> Inl (ParseError msg)
                | Inr (h1, tree) \<Rightarrow>
                    (case (if isStatement h1 (NodeRef node) then extractStatement h1 tree
                           else extractExpression h1 tree) of
                       Inl err \<Rightarrow> Inl err
                     | Inr v \<Rightarrow> Inr (h1, v)))
           | RvOther v \<Rightarrow>
               Inl (RefactorError (''Invalid return type from replacement function: '' @ v)))
      | ReplacerNode r \<Rightarrow> Inr (copy e h (NodeRef r))
      | ReplacerText _ \<Rightarrow>
          (case script of
             None \<Rightarrow> Inr (h, Null)
           | Some scr \<Rightarrow>
               if isStatement h (NodeRef node) then Inr (copy e h (firstStatement h scr))
               else
                 (case firstStatement h scr of
                    NodeRef st \<Rightarrow>
                      if nodeType h st = ''ExpressionStatement''
                      then Inr (copy e h (expressionOf h st))
                      else Inr (h, Null)
                  | _ \<Rightarrow> Inl (TypeError ''Cannot read property type of undefined'')))
      | ReplacerOther \<Rightarrow> Inr (h, Null))"

text \<open>
  The \<open>map\<close> over the selected nodes. An error leaves the world as it is when thrown: what
  was queued for the nodes before stays queued. The number is the count of \<open>true\<close> results.
\<close>

fun replaceEach ::
  "ext \<Rightarrow> replacer \<Rightarrow> ref option \<Rightarrow> world \<Rightarrow> sid \<Rightarrow> ref list \<Rightarrow> (error \<times> world + world \<times> nat) option" where
  "replaceEach e rp script w s [] = Some (Inr (w, 0))"
| "replaceEach e rp script w s (node # ns) =
     (case replacementOf e (heap w) rp script node of
        Inl err \<Rightarrow> Some (Inl (err, w))
      | Inr (h1, v) \<Rightarrow>
          if v \<noteq> NodeRef node then
            (case queueReplacement (w\<lparr>heap := h1\<rparr>) s node v of
               None \<Rightarrow> None
             | Some w1 \<Rightarrow>
                 (case replaceEach e rp script w1 s ns of
                    None \<Rightarrow> None
                  | Some (Inl ew) \<Rightarrow> Some (Inl ew)
                  | Some (Inr (w2, k)) \<Rightarrow> Some (Inr (w2, Suc k))))
          else replaceEach e rp script (w\<lparr>heap := h1\<rparr>) s ns)"

definition replace ::
  "ext \<Rightarrow> world \<Rightarrow> sid \<Rightarrow> selectorOrNode \<Rightarrow> replacer \<Rightarrow> (error \<times> world + world \<times> nat) option" where
  "replace e w s sel rp =
     (let ns = findNodes e (heap w) (nodes (sessions w s)) sel in
      case (case rp of
              ReplacerText t \<Rightarrow>
                (case parseScript e (heap w) t of
                   Inl msg \<Rightarrow> Inl (ParseError msg)
                 | Inr (h1, scr) \<Rightarrow> Inr (h1, Some scr))
            | _ \<Rightarrow> Inr (heap w, None)) of
        Inl err \<Rightarrow> Some (Inl (err, w))
      | Inr (h1, script) \<Rightarrow>
          (case replaceEach e rp script (w\<lparr>heap := h1\<rparr>) s ns of
             None \<Rightarrow> None
           | Some (Inl ew) \<Rightarrow> Some (Inl ew)
           | Some (Inr (w1, k)) \<Rightarrow>
               (case conditionalCleanup w1 s of
                  None \<Rightarrow> None
                | Some w2 \<Rightarrow> Some (Inr (w2, k)))))"

text \<open>
  \<open>getInsertion\<close> of \<open>insert\<close>, with the closure variable \<open>insertion\<close> passed in and out.
  Parsing anything but a string is left to the parser, which rejects it.
\<close>

definition getInsertion ::
  "ext \<Rightarrow> heap \<Rightarrow> jsval \<Rightarrow> replacer \<Rightarrow> ref \<Rightarrow> error + heap \<times> jsval \<times> jsval" where
  "getInsertion e h ins program node =
     (case program of
        ReplacerFn f \<Rightarrow>
          (case f h node of
             RvNode r \<Rightarrow> Inr (h, ins, NodeRef r)
           | RvString t \<Rightarrow>
               (case parseScript e h t of
                  Inl msg \<Rightarrow> Inl (ParseError msg)
                | Inr (h1, tree) \<Rightarrow> Inr (h1, ins, firstStatement h1 tree))
           | _ \<Rightarrow> Inl (TypeError ''source is not a string''))
      | _ \<Rightarrow>
          (case ins of
             NodeRef _ \<Rightarrow> (case copy e h ins of (h1, c) \<Rightarrow> Inr (h1, ins, c))
           | _ \<Rightarrow>
               (case program of
                  ReplacerNode r \<Rightarrow> (case copy e h (NodeRef r) of (h1, c) \<Rightarrow> Inr (h1, ins, c))
                | ReplacerText t \<Rightarrow>
                    (case parseScript e h t of
                       Inl msg \<Rightarrow> Inl (ParseError msg)
                     | Inr (h1, tree) \<Rightarrow> Inr (h1, firstStatement h1 tree, firstStatement h1 tree))
                | _ \<Rightarrow> Inl (TypeError ''source is not a string''))))"

text \<open>The \<open>forEach\<close> of \<open>insert\<close>, on the global session \<open>g\<close>.\<close>

fun insertEach ::
  "ext \<Rightarrow> replacer \<Rightarrow> bool \<Rightarrow> world \<Rightarrow> sid \<Rightarrow> jsval \<Rightarrow> ref list \<Rightarrow> error \<times> world + world" where
  "insertEach e rp aft w g ins [] = Inr w"
| "insertEach e rp aft w g ins (node # ns) =
     (if \<not> isStatement (heap w) (NodeRef node)
      then Inl (RefactorError ''Can only insert before or after Statements or Declarations'', w)
      else
        (let w1 = updSession w g (\<lambda>x. x\<lparr>dirty := True\<rparr>) in
         case getInsertion e (heap w1) ins rp node of
           Inl err \<Rightarrow> Inl (err, w1)
         | Inr (h2, ins2, toInsert) \<Rightarrow>
             if \<not> isStatement h2 toInsert
             then Inl (RefactorError ''Will not insert anything but a Statement or Declaration'',
                       w1\<lparr>heap := h2\<rparr>)
             else
               (case getInsertion e h2 ins2 rp node of
                  Inl err \<Rightarrow> Inl (err, w1\<lparr>heap := h2\<rparr>)
                | Inr (h3, ins3, stmt) \<Rightarrow>
                    insertEach e rp aft
                      (updSession (w1\<lparr>heap := h3\<rparr>) g
                         (\<lambda>x. x\<lparr>insertions :=
                                 (insertions x)(node \<mapsto> \<lparr>after = aft, statement = stmt\<rparr>)\<rparr>))
                      g ins3 ns)))"

partial_function (option) insert_op ::
  "ext \<Rightarrow> world \<Rightarrow> sid \<Rightarrow> selectorOrNode \<Rightarrow> replacer \<Rightarrow> bool \<Rightarrow> (error \<times> world + world) option" where
  "insert_op e w s sel rp aft =
     (if s \<noteq> globalSession (sessions w s)
      then insert_op e w (globalSession (sessions w s)) sel rp aft
      else
        (case insertEach e rp aft w s Null
                (findNodes e (heap w) (nodes (sessions w s)) sel) of
           Inl ew \<Rightarrow> Some (Inl ew)
         | Inr w1 \<Rightarrow>
             (case conditionalCleanup w1 s of None \<Rightarrow> None | Some w2 \<Rightarrow> Some (Inr w2))))"


definition append_op ::
  "ext \<Rightarrow> world \<Rightarrow> sid \<Rightarrow> selectorOrNode \<Rightarrow> replacer \<Rightarrow> (error \<times> world + world) option" where
  "append_op e w s sel rp = insert_op e w (globalSession (sessions w s)) sel rp True"



section \<open>Renaming, subsessions and printing\<close>

definition setName :: "string \<Rightarrow> ref \<Rightarrow> heap \<Rightarrow> heap" where
  "setName newName r h = setField h r ''name'' (FStr newName)"

definition renameInPlace :: "world \<Rightarrow> variable option \<Rightarrow> string \<Rightarrow> world" where
  "renameInPlace w lookup newName =
     (case lookup of
        None \<Rightarrow> w
      | Some v \<Rightarrow>
          if newName = [] then w
          else w\<lparr>heap := fold (setName newName) (references v)
                            (fold (setName newName) (declarations v) (heap w))\<rparr>)"

text \<open>The \<open>forEach\<close> callback of \<open>rename\<close>.\<close>

definition renameNode :: "scopeLookup \<Rightarrow> string \<Rightarrow> ref \<Rightarrow> world \<Rightarrow> world" where
  "renameNode lt newName node w =
     (case (if nodeType (heap w) node = ''VariableDeclarator''
            then (case getField (heap w) node ''binding'' of Some (FOne v) \<Rightarrow> v | _ \<Rightarrow> Undefined)
            else NodeRef node) of
        NodeRef n \<Rightarrow>
          (case variableMap lt n of
             None \<Rightarrow> w
           | Some vs \<Rightarrow> renameInPlace w (case vs of [] \<Rightarrow> None | v # _ \<Rightarrow> Some v) newName)
      | _ \<Rightarrow> w)"

definition rename ::
  "ext \<Rightarrow> world \<Rightarrow> sid \<Rightarrow> selectorOrNode \<Rightarrow> string \<Rightarrow> (error + world) option" where
  "rename e w s sel newName =
     (case getLookupTable e w s of
        None \<Rightarrow> None
      | Some (Inl err) \<Rightarrow> Some (Inl err)
      | Some (Inr (w1, lt)) \<Rightarrow>
          Some (Inr (fold (renameNode lt newName)
                       (findNodes e (heap w1) (nodes (sessions w1 s)) sel) w1)))"

text \<open>\<open>subSession\<close>, of another session's nodes (\<open>Inl\<close>) or of a selection (\<open>Inr\<close>).\<close>

definition subSession :: "ext \<Rightarrow> world \<Rightarrow> sid \<Rightarrow> sid + selectorOrNode \<Rightarrow> (error + world \<times> sid) option" where
  "subSession e w s q =
     construct e w
       (NodeList (map Inr (case q of
                             Inl other \<Rightarrow> nodes (sessions w other)
                           | Inr sel \<Rightarrow> map NodeRef (findNodes e (heap w) (nodes (sessions w s)) sel))))
       \<lparr>autoCleanupCfg = None, parentSession = Some s\<rparr>"

definition isDirty :: "world \<Rightarrow> sid \<Rightarrow> bool" where
  "isDirty w s = dirty (sessions w s)"

definition first :: "world \<Rightarrow> sid \<Rightarrow> jsval" where
  "first w s = (case nodes (sessions w s) of [] \<Rightarrow> Undefined | n # _ \<Rightarrow> n)"

definition generate :: "ext \<Rightarrow> world \<Rightarrow> sid \<Rightarrow> jsval \<Rightarrow> error + string" where
  "generate e w s ast =
     (if isDirty w s
      then Inl (RefactorError
        ''refactor .print() called with a dirty AST. This is almost always a bug. Call .cleanup() before printing.'')
      else Inr (codegen e (heap w) (case ast of NodeRef r \<Rightarrow> ast | _ \<Rightarrow> first w s)))"


section \<open>Shapes of the tree\<close>

text \<open>
  \<open>allNodes P h n\<close>: the nodes under \<open>n\<close> in the store \<open>h\<close> form a finite tree and \<open>P\<close>
  holds of each. A subtree is untouched by a commit when none of its nodes is in the set \<open>A\<close>
  (the nodes with a pending mutation, and the nodes the commit writes to) and none is a
  variable declaration statement without declarators.
\<close>

inductive allNodes :: "(ref \<Rightarrow> bool) \<Rightarrow> heap \<Rightarrow> ref \<Rightarrow> bool" for P h where
  node: "P n \<Longrightarrow> (\<forall>c \<in> set (childRefs h n). allNodes P h c) \<Longrightarrow> allNodes P h n"




definition finishes :: "heap \<Rightarrow> ref \<Rightarrow> bool" where
  "finishes h c =
     (\<forall>p wl pm. \<exists>pm'. buildParents h ((c, p) # wl) pm = buildParents h wl pm')"

definition sessionFrame :: "session \<Rightarrow> session \<Rightarrow> bool" where
  "sessionFrame x y =
     (nodes x = nodes y \<and> x_root x = x_root y \<and> globalSession x = globalSession y \<and>
      autoCleanup x = autoCleanup y \<and> dirty x = dirty y \<and> parentMap x = parentMap y \<and>
      replacements x = replacements y \<and> deletions x = deletions y \<and>
      insertions x = insertions y \<and> lookupTable x = lookupTable y)"


section \<open>An example program\<close>

text \<open>
  The script \<open>a; b; if (c) d;\<close> (nodes 1 to 7, 30 and 31) with a detached statement \<open>x\<close>
  (nodes 8 and 9), a parser that knows the texts \<open>x\<close> and \<open>var v;\<close>, a scope analyzer that
  finds no variables, and a root session over the script. No example below reaches a call of
  \<open>copy\<close>, which is left as the identity here.
\<close>


definition exHeap :: heap where
  "exHeap =
     [1 \<mapsto> \<lparr>otype = ''Script'',
             ofields = [(''directives'', FArr []),
                        (''statements'', FArr [NodeRef 2, NodeRef 4, NodeRef 6])]\<rparr>,
      2 \<mapsto> \<lparr>otype = ''ExpressionStatement'', ofields = [(''expression'', FOne (NodeRef 3))]\<rparr>,
      3 \<mapsto> \<lparr>otype = ''IdentifierExpression'', ofields = [(''name'', FStr ''a'')]\<rparr>,
      4 \<mapsto> \<lparr>otype = ''ExpressionStatement'', ofields = [(''expression'', FOne (NodeRef 5))]\<rparr>,
      5 \<mapsto> \<lparr>otype = ''IdentifierExpression'', ofields = [(''name'', FStr ''b'')]\<rparr>,
      6 \<mapsto> \<lparr>otype = ''IfStatement'',
             ofields = [(''test'', FOne (NodeRef 7)), (''consequent'', FOne (NodeRef 30)),
                        (''alternate'', FOne Null)]\<rparr>,
      7 \<mapsto> \<lparr>otype = ''IdentifierExpression'', ofields = [(''name'', FStr ''c'')]\<rparr>,
      8 \<mapsto> \<lparr>otype = ''ExpressionStatement'', ofields = [(''expression'', FOne (NodeRef 9))]\<rparr>,
      9 \<mapsto> \<lparr>otype = ''IdentifierExpression'', ofields = [(''name'', FStr ''x'')]\<rparr>,
      30 \<mapsto> \<lparr>otype = ''ExpressionStatement'', ofields = [(''expression'', FOne (NodeRef 31))]\<rparr>,
      31 \<mapsto> \<lparr>otype = ''IdentifierExpression'', ofields = [(''name'', FStr ''d'')]\<rparr>]"

definition exParse :: "heap \<Rightarrow> string \<Rightarrow> string + heap \<times> ref" where
  "exParse h t =
     (if t = ''x'' then
        Inr (h(10 \<mapsto> \<lparr>otype = ''Script'',
                       ofields = [(''directives'', FArr []), (''statements'', FArr [NodeRef 11])]\<rparr>,
               11 \<mapsto> \<lparr>otype = ''ExpressionStatement'',
                       ofields = [(''expression'', FOne (NodeRef 12))]\<rparr>,
               12 \<mapsto> \<lparr>otype = ''IdentifierExpression'', ofields = [(''name'', FStr ''x'')]\<rparr>), 10)
      else if t = ''var v;'' then
        Inr (h(20 \<mapsto> \<lparr>otype = ''Script'',
                       ofields = [(''directives'', FArr []), (''statements'', FArr [NodeRef 21])]\<rparr>,
               21 \<mapsto> \<lparr>otype = ''VariableDeclarationStatement'',
                       ofields = [(''declaration'', FOne (NodeRef 22))]\<rparr>,
               22 \<mapsto> \<lparr>otype = ''VariableDeclaration'',
                       ofields = [(''kind'', FStr ''var''), (''declarators'', FArr [NodeRef 23])]\<rparr>,
               23 \<mapsto> \<lparr>otype = ''VariableDeclarator'',
                       ofields = [(''binding'', FOne (NodeRef 24)), (''init'', FOne Null)]\<rparr>,
               24 \<mapsto> \<lparr>otype = ''BindingIdentifier'', ofields = [(''name'', FStr ''v'')]\<rparr>), 20)
      else Inl ''Unexpected token'')"

definition exExt :: ext where
  "exExt =
     \<lparr>parseScript = exParse,
      shiftScope = (\<lambda>h r. \<lparr>scope = Scope r [] [], variableMap = Map.empty\<rparr>),
      copy = (\<lambda>h v. (h, v)),
      query = (\<lambda>h ns q. []),
      codegen = (\<lambda>h v. ''a; b; if (c) d;'')\<rparr>"

definition exWorld0 :: world where
  "exWorld0 = \<lparr>heap = exHeap, sessions = (\<lambda>s. newSession), nextSid = 0\<rparr>"

definition exWorld :: world where
  "exWorld =
     \<lparr>heap = exHeap,
      sessions = (\<lambda>s. newSession)
        (0 := newSession\<lparr>nodes := [NodeRef 1], x_root := Some 1, globalSession := 0\<rparr>),
      nextSid = 1\<rparr>"


text \<open>The root session with a replacement of \<open>a\<close> and an insertion after \<open>b\<close> queued.\<close>

definition exQueued :: world where
  "exQueued =
     updSession exWorld 0
       (\<lambda>x. x\<lparr>dirty := True, replacements := [2 \<mapsto> NodeRef 8],
              insertions := [4 \<mapsto> \<lparr>after = True, statement = NodeRef 8\<rparr>]\<rparr>)"


section \<open>Unfolding the loops and the delegations\<close>

lemma buildParents_Nil: "buildParents h [] pm = Some pm"
  by (subst buildParents.simps) simp

lemma buildParents_Cons:
  "buildParents h ((n, p) # rest) pm =
     buildParents h (map (\<lambda>c. (c, Some n)) (childRefs h n) @ rest)
       (case p of None \<Rightarrow> pm | Some q \<Rightarrow> pm(n \<mapsto> q))"
  by (subst buildParents.simps) simp

lemma root_own: "x_root (sessions w s) = Some r \<Longrightarrow> root w s = Some (Inr r)"
  by (subst root.simps) simp

lemma root_delegate:
  "x_root (sessions w s) = None \<Longrightarrow> s \<noteq> globalSession (sessions w s) \<Longrightarrow>
   root w s = root w (globalSession (sessions w s))"
  by (subst root.simps) simp

lemma replaceLoop_done: "worklist st = [] \<Longrightarrow> replaceLoop lv st = Some st"
  by (subst replaceLoop.simps) simp

lemma replaceLoop_step: "worklist st \<noteq> [] \<Longrightarrow> replaceLoop lv st = replaceLoop lv (step lv st)"
  by (subst replaceLoop.simps) simp

lemma cleanup_sub:
  "s \<noteq> globalSession (sessions w s) \<Longrightarrow> cleanup w s = cleanup w (globalSession (sessions w s))"
  by (subst cleanup.simps) simp

lemma cleanup_global:
  "s = globalSession (sessions w s) \<Longrightarrow>
   cleanup w s = (if \<not> dirty (sessions w s) then Some w else commit w s)"
  by (subst cleanup.simps) simp

lemma queueDeletion_sub:
  "s \<noteq> globalSession (sessions w s) \<Longrightarrow>
   queueDeletion w s n = queueDeletion w (globalSession (sessions w s)) n"
  by (subst queueDeletion.simps) simp

lemma queueDeletion_global:
  "s = globalSession (sessions w s) \<Longrightarrow>
   queueDeletion w s n =
     Some (updSession w s (\<lambda>x. x\<lparr>dirty := True, deletions := Set.insert n (deletions x)\<rparr>))"
  by (subst queueDeletion.simps) simp

lemma queueReplacement_sub:
  "s \<noteq> globalSession (sessions w s) \<Longrightarrow>
   queueReplacement w s n v = queueReplacement w (globalSession (sessions w s)) n v"
  by (subst queueReplacement.simps) simp

lemma queueReplacement_global:
  "s = globalSession (sessions w s) \<Longrightarrow>
   queueReplacement w s n v =
     Some (updSession w s (\<lambda>x. x\<lparr>dirty := True, replacements := (replacements x)(n \<mapsto> v)\<rparr>))"
  by (subst queueReplacement.simps) simp


lemma insert_op_global:
  "s = globalSession (sessions w s) \<Longrightarrow>
   insert_op e w s sel rp aft =
     (case insertEach e rp aft w s Null (findNodes e (heap w) (nodes (sessions w s)) sel) of
        Inl ew \<Rightarrow> Some (Inl ew)
      | Inr w1 \<Rightarrow> (case conditionalCleanup w1 s of None \<Rightarrow> None | Some w2 \<Rightarrow> Some (Inr w2)))"
  by (subst insert_op.simps) simp

lemmas eval_session =
  construct_def constructNodes_def applyAutoCleanup_def rebuildParentMap_def buildParentMap_def
  buildParents_Nil buildParents_Cons childRefs_def getLookupTable_def root_own root_delegate
  rebuildScopeMap_def updSession_def newSession_def Let_def

lemmas eval_commit =
  cleanup_sub cleanup_global commit_def traverserReplace_def initState_def replaceLoop_done
  replaceLoop_step step_def childElems_def leave_def insertStatement_def statementsOf_def nodeType_def
  emptyDeclarators_def getField_def setField_def isStatement_def indexOf_def spliceInsert_def
  spliceRemove_def spliceStart_def arraySet_def slotReplace_def removeElem_def
  conditionalCleanup_def queueDeletion_sub queueDeletion_global queueReplacement_sub
  queueReplacement_global

lemmas eval_example = exWorld_def exWorld0_def exExt_def exHeap_def exParse_def


section \<open>The scope walk keeps the rest of the session\<close>

lemma fold_frame:
  assumes "\<And>a y. a \<in> set xs \<Longrightarrow> sessionFrame (f a y) y"
  shows "sessionFrame (fold f xs x) x"
  using assms
proof (induction xs arbitrary: x)
  case Nil
  then show ?case by (simp add: sessionFrame_def)
next
  case (Cons a xs)
  have "sessionFrame (fold f xs (f a x)) (f a x)" using Cons by simp
  moreover have "sessionFrame (f a x) x" using Cons.prems by simp
  ultimately show ?case by (simp add: sessionFrame_def)
qed

lemma recurse_frame: "sessionFrame (recurse sc x) x"
proof (induction sc x rule: recurse.induct)
  case (1 a vs cs x)
  let ?x1 = "x\<lparr>scopeOwnerMap := (scopeOwnerMap x)(a \<mapsto> Scope a vs cs)\<rparr>"
  let ?g = "\<lambda>v y. y\<lparr>variables := Set.insert v (variables y),
                        scopeMap := (scopeMap y)(v \<mapsto> Scope a vs cs)\<rparr>"
  have "sessionFrame (fold recurse cs (fold ?g vs ?x1)) (fold ?g vs ?x1)"
    by (rule fold_frame) (rule "1.IH")
  moreover have "sessionFrame (fold ?g vs ?x1) ?x1"
    by (rule fold_frame) (simp add: sessionFrame_def)
  ultimately show ?case by (simp add: sessionFrame_def)
qed

lemmas recurse_fields = recurse_frame[unfolded sessionFrame_def]


section \<open>The auto-cleanup option\<close>

text \<open>
  C4. A session constructed with the auto-cleanup option disabled should only queue its
  mutations. The constructor assigns the option under \<open>if (config.autoCleanup)\<close>, so
  \<open>false\<close> is never assigned: on the script \<open>a; b; if (c) d;\<close> the session constructed with
  \<open>autoCleanup: false\<close> has auto-cleanup on, and deleting \<open>a\<close> commits at once (the session is
  clean and \<open>a\<close> is gone from the statement list).
\<close>

theorem autoCleanup_false_is_ignored:
  "\<exists>w1 w2.
     construct exExt exWorld0 (SingleNode 1) \<lparr>autoCleanupCfg = Some False, parentSession = None\<rparr> =
       Some (Inr (w1, 0))
     \<and> autoCleanup (sessions w1 0)
     \<and> delete exExt w1 0 (SelNode 2) = Some w2
     \<and> \<not> dirty (sessions w2 0)
     \<and> getField (heap w2) 1 ''statements'' = Some (FArr [NodeRef 4, NodeRef 6])"
  by (simp add: eval_session eval_commit eval_example delete_def findNodes_def)


section \<open>Deletion against replacement\<close>

text \<open>
  C1. A node queued both for replacement and for deletion should be removed and its
  replacement discarded. The \<open>leave\<close> function returns the replacement before it looks at
  the deletions: with \<open>a\<close> queued for replacement by \<open>x\<close> and for deletion, the commit puts
  \<open>x\<close> where \<open>a\<close> was.
\<close>

theorem replacement_survives_deletion:
  "\<exists>w1 w2 w3.
     queueReplacement exWorld 0 2 (NodeRef 8) = Some w1
     \<and> queueDeletion w1 0 2 = Some w2
     \<and> replacements (sessions w2 0) 2 = Some (NodeRef 8) \<and> 2 \<in> deletions (sessions w2 0)
     \<and> cleanup w2 0 = Some w3
     \<and> getField (heap w3) 1 ''statements'' = Some (FArr [NodeRef 8, NodeRef 4, NodeRef 6])"
  by (simp add: eval_session eval_commit eval_example)


section \<open>Printing a dirty tree\<close>

text \<open>
  C9. \<open>generate\<close> should fail with the dirty-print error while a mutation is queued and not
  committed, for every session. It reads the \<open>dirty\<close> field of the session it is called on,
  and every queueing call sets the field of the global session: after a deletion queued through
  a subsession the global session refuses to print, and the subsession prints.
\<close>

theorem subsession_prints_while_dirty:
  "\<exists>w1 w2.
     subSession exExt exWorld 0 (Inr (SelNode 2)) = Some (Inr (w1, 1))
     \<and> queueDeletion w1 1 2 = Some w2
     \<and> 2 \<in> deletions (sessions w2 0) \<and> isDirty w2 0
     \<and> generate exExt w2 0 Undefined = Inl (RefactorError
        ''refactor .print() called with a dirty AST. This is almost always a bug. Call .cleanup() before printing.'')
     \<and> generate exExt w2 1 Undefined = Inr (codegen exExt (heap w2) (NodeRef 2))"
  by (simp add: eval_session eval_commit eval_example subSession_def findNodes_def generate_def
      isDirty_def first_def)


section \<open>The parent index after a commit\<close>

text \<open>
  C5. After a commit the parent index should cover the new managed roots. \<open>cleanup\<close> calls
  \<open>rebuildParentMap\<close> before it assigns \<open>this.nodes = result\<close>, so the index is built from
  the roots of before the commit: when the root \<open>1\<close> is replaced by the statement \<open>8\<close>, the
  session manages \<open>8\<close>, whose child \<open>9\<close> has no parent in the index, and the index still
  holds the nodes of the old tree.
\<close>

theorem parent_index_misses_new_root:
  "\<exists>w1.
     replace exExt exWorld 0 (SelNode 1) (ReplacerFn (\<lambda>h n. RvNode 8)) = Some (Inr (w1, 1))
     \<and> \<not> dirty (sessions w1 0)
     \<and> nodes (sessions w1 0) = [NodeRef 8]
     \<and> childRefs (heap w1) 8 = [9]
     \<and> parentMap (sessions w1 0) 9 = None
     \<and> parentMap (sessions w1 0) 3 = Some 2"
  by (simp add: eval_session eval_commit eval_example replace_def replacementOf_def findNodes_def)


section \<open>Replacement values of the wrong category\<close>

text \<open>
  C6. A replacement value that is no node and does not resolve to the category of the target
  should raise an error and queue nothing. For a replacer given as a source text, an expression
  target and a text whose first statement is no expression statement, \<open>replace\<close> has no
  \<open>else\<close>: the replacement stays \<open>null\<close> and is queued. Replacing the expression \<open>a\<close> by the
  text \<open>var v;\<close> returns the count 1, with \<open>null\<close> queued for the node; with auto-cleanup the
  commit writes \<open>null\<close> into the statement.
\<close>

theorem statement_text_for_expression_queues_null:
  "\<exists>w1 w2.
     replace exExt (updSession exWorld 0 (\<lambda>x. x\<lparr>autoCleanup := False\<rparr>)) 0 (SelNode 3)
       (ReplacerText ''var v;'') = Some (Inr (w1, 1))
     \<and> replacements (sessions w1 0) 3 = Some Null
     \<and> replace exExt exWorld 0 (SelNode 3) (ReplacerText ''var v;'') = Some (Inr (w2, 1))
     \<and> getField (heap w2) 2 ''expression'' = Some (FOne Null)"
  by (simp add: eval_session eval_commit eval_example replace_def replacementOf_def findNodes_def
      firstStatement_def)


section \<open>Fields of the store\<close>

lemma map_of_updField_same: "map_of (updField k v fs) k = Some v"
  by (induction fs) auto

lemma map_of_updField_other: "k' \<noteq> k \<Longrightarrow> map_of (updField k v fs) k' = map_of fs k'"
  by (induction fs) auto

lemma setField_other: "r' \<noteq> r \<Longrightarrow> setField h r k v r' = h r'"
  by (simp add: setField_def split: option.splits)

lemma dom_setField: "dom (setField h r k v) = dom h"
  by (auto simp: setField_def split: option.splits if_splits)

lemma getField_setField_same: "r \<in> dom h \<Longrightarrow> getField (setField h r k v) r k = Some v"
  by (auto simp: getField_def setField_def map_of_updField_same)

lemma getField_setField_other:
  "k' \<noteq> k \<Longrightarrow> getField (setField h r k v) r' k' = getField h r' k'"
  by (auto simp: getField_def setField_def map_of_updField_other split: option.splits)

lemma nodeType_setField: "nodeType (setField h r k v) r' = nodeType h r'"
  by (auto simp: nodeType_def setField_def split: option.splits)


section \<open>Renaming in place\<close>

lemma fold_setName_other: "r \<notin> set rs \<Longrightarrow> fold (setName n) rs h r = h r"
  by (induction rs arbitrary: h) (auto simp: setName_def setField_other)

lemma dom_fold_setName: "dom (fold (setName n) rs h) = dom h"
  by (induction rs arbitrary: h) (auto simp: setName_def dom_setField)

lemma nodeType_fold_setName: "nodeType (fold (setName n) rs h) r = nodeType h r"
  by (induction rs arbitrary: h) (auto simp: setName_def nodeType_setField)

lemma fields_fold_setName:
  "k \<noteq> ''name'' \<Longrightarrow> getField (fold (setName n) rs h) r k = getField h r k"
  by (induction rs arbitrary: h) (auto simp: setName_def getField_setField_other)

lemma getField_setName_name:
  "getField h r ''name'' = Some (FStr n) \<Longrightarrow> getField (setName n r' h) r ''name'' = Some (FStr n)"
  by (auto simp: setName_def getField_def setField_def map_of_updField_same split: option.splits)

lemma name_fold_setName_keep:
  "getField h r ''name'' = Some (FStr n) \<Longrightarrow>
   getField (fold (setName n) rs h) r ''name'' = Some (FStr n)"
  by (induction rs arbitrary: h) (auto simp: getField_setName_name)

lemma name_fold_setName:
  "r \<in> set rs \<Longrightarrow> r \<in> dom h \<Longrightarrow> getField (fold (setName n) rs h) r ''name'' = Some (FStr n)"
proof (induction rs arbitrary: h)
  case Nil
  then show ?case by simp
next
  case (Cons a rs)
  show ?case
  proof (cases "r = a")
    case True
    then have "getField (setName n a h) r ''name'' = Some (FStr n)"
      using Cons.prems by (simp add: setName_def getField_setField_same)
    then show ?thesis by (simp add: name_fold_setName_keep)
  next
    case False
    then have "r \<in> set rs" using Cons.prems by simp
    moreover have "r \<in> dom (setName n a h)"
      using Cons.prems by (simp add: setName_def dom_setField)
    ultimately show ?thesis using Cons.IH by simp
  qed
qed

text \<open>
  C8. \<open>renameInPlace\<close> on a resolved variable works on the store at once and leaves the
  sessions (and so the mutation queue) as they are: the \<open>name\<close> field of every declaration
  node and every reference node of the variable becomes the new name; every other field and
  the type of every node stay, no other node changes, no node is added or lost. Without a
  variable, or with the empty name, nothing changes.
\<close>

theorem renameInPlace_effect:
  "renameInPlace w None newName = w
   \<and> renameInPlace w lookup [] = w
   \<and> (newName \<noteq> [] \<longrightarrow>
        sessions (renameInPlace w (Some v) newName) = sessions w
      \<and> dom (heap (renameInPlace w (Some v) newName)) = dom (heap w)
      \<and> (\<forall>r. r \<in> set (declarations v) \<union> set (references v) \<longrightarrow> r \<in> dom (heap w) \<longrightarrow>
              getField (heap (renameInPlace w (Some v) newName)) r ''name'' = Some (FStr newName))
      \<and> (\<forall>r k. k \<noteq> ''name'' \<longrightarrow>
              getField (heap (renameInPlace w (Some v) newName)) r k = getField (heap w) r k)
      \<and> (\<forall>r. nodeType (heap (renameInPlace w (Some v) newName)) r = nodeType (heap w) r)
      \<and> (\<forall>r. r \<notin> set (declarations v) \<union> set (references v) \<longrightarrow>
              heap (renameInPlace w (Some v) newName) r = heap w r))"
proof -
  have noop: "renameInPlace w None newName = w \<and> renameInPlace w lookup [] = w"
    by (simp add: renameInPlace_def split: option.splits)
  have eff: "sessions (renameInPlace w (Some v) newName) = sessions w
      \<and> dom (heap (renameInPlace w (Some v) newName)) = dom (heap w)
      \<and> (\<forall>r. r \<in> set (declarations v) \<union> set (references v) \<longrightarrow> r \<in> dom (heap w) \<longrightarrow>
              getField (heap (renameInPlace w (Some v) newName)) r ''name'' = Some (FStr newName))
      \<and> (\<forall>r k. k \<noteq> ''name'' \<longrightarrow>
              getField (heap (renameInPlace w (Some v) newName)) r k = getField (heap w) r k)
      \<and> (\<forall>r. nodeType (heap (renameInPlace w (Some v) newName)) r = nodeType (heap w) r)
      \<and> (\<forall>r. r \<notin> set (declarations v) \<union> set (references v) \<longrightarrow>
              heap (renameInPlace w (Some v) newName) r = heap w r)" if ne: "newName \<noteq> []"
  proof -
    let ?h1 = "fold (setName newName) (declarations v) (heap w)"
    let ?h2 = "fold (setName newName) (references v) ?h1"
    have hp: "heap (renameInPlace w (Some v) newName) = ?h2"
      and ss: "sessions (renameInPlace w (Some v) newName) = sessions w"
      using ne by (simp_all add: renameInPlace_def)
    have d: "dom ?h2 = dom (heap w)" by (simp add: dom_fold_setName)
    have nm: "getField ?h2 r ''name'' = Some (FStr newName)"
      if "r \<in> set (declarations v) \<union> set (references v)" "r \<in> dom (heap w)" for r
    proof (cases "r \<in> set (references v)")
      case True
      then show ?thesis using that by (simp add: name_fold_setName dom_fold_setName)
    next
      case False
      then have "r \<in> set (declarations v)" using that by simp
      then have "getField ?h1 r ''name'' = Some (FStr newName)"
        using that by (simp add: name_fold_setName)
      then show ?thesis by (rule name_fold_setName_keep)
    qed
    have fl: "getField ?h2 r k = getField (heap w) r k" if "k \<noteq> ''name''" for r k
      using that by (simp add: fields_fold_setName)
    have ty: "nodeType ?h2 r = nodeType (heap w) r" for r
      by (simp add: nodeType_fold_setName)
    have ot: "?h2 r = heap w r" if "r \<notin> set (declarations v) \<union> set (references v)" for r
      using that by (simp add: fold_setName_other)
    show ?thesis using ss d nm fl ty ot unfolding hp by blast
  qed
  show ?thesis using noop eff by blast
qed

theorem renameInPlace_effect_witness:
  "''z'' \<noteq> []
   \<and> 3 \<in> set (declarations \<lparr>vname = ''a'', declarations = [3], references = [5]\<rparr>)
         \<union> set (references \<lparr>vname = ''a'', declarations = [3], references = [5]\<rparr>)
   \<and> 3 \<in> dom (heap exWorld)
   \<and> 7 \<notin> set (declarations \<lparr>vname = ''a'', declarations = [3], references = [5]\<rparr>)
         \<union> set (references \<lparr>vname = ''a'', declarations = [3], references = [5]\<rparr>)
   \<and> getField (heap (renameInPlace exWorld
        (Some \<lparr>vname = ''a'', declarations = [3], references = [5]\<rparr>) ''z'')) 3 ''name'' =
       Some (FStr ''z'')
   \<and> heap (renameInPlace exWorld
        (Some \<lparr>vname = ''a'', declarations = [3], references = [5]\<rparr>) ''z'') 7 = heap exWorld 7
   \<and> sessions (renameInPlace exWorld
        (Some \<lparr>vname = ''a'', declarations = [3], references = [5]\<rparr>) ''z'') = sessions exWorld"
proof -
  let ?v = "\<lparr>vname = ''a'', declarations = [3], references = [5]\<rparr>"
  have ne: "''z'' \<noteq> []" by simp
  have in3: "3 \<in> set (declarations ?v) \<union> set (references ?v)" by simp
  have d3: "3 \<in> dom (heap exWorld)" by (simp add: exWorld_def exHeap_def)
  have out7: "7 \<notin> set (declarations ?v) \<union> set (references ?v)" by simp
  have all: "sessions (renameInPlace exWorld (Some ?v) ''z'') = sessions exWorld
      \<and> (\<forall>r. r \<in> set (declarations ?v) \<union> set (references ?v) \<longrightarrow> r \<in> dom (heap exWorld) \<longrightarrow>
              getField (heap (renameInPlace exWorld (Some ?v) ''z'')) r ''name'' = Some (FStr ''z''))
      \<and> (\<forall>r. r \<notin> set (declarations ?v) \<union> set (references ?v) \<longrightarrow>
              heap (renameInPlace exWorld (Some ?v) ''z'') r = heap exWorld r)"
    using renameInPlace_effect [of exWorld "''z''" None ?v] ne by blast
  then have "getField (heap (renameInPlace exWorld (Some ?v) ''z'')) 3 ''name'' = Some (FStr ''z'')"
    and "heap (renameInPlace exWorld (Some ?v) ''z'') 7 = heap exWorld 7"
    and "sessions (renameInPlace exWorld (Some ?v) ''z'') = sessions exWorld"
    using in3 d3 out7 by blast+
  then show ?thesis using ne in3 d3 out7 by blast
qed

section \<open>What a commit leaves in the queue\<close>

lemma step_done: "worklist st = [] \<Longrightarrow> step lv st = st"
  by (simp add: step_def)

lemma replaceLoop_after_step: "replaceLoop lv (step lv st) = replaceLoop lv st"
  by (cases "worklist st = []") (simp_all add: step_done replaceLoop_step)

lemma replaceLoop_after_steps: "replaceLoop lv ((step lv ^^ k) st) = replaceLoop lv st"
  by (induction k) (simp_all add: replaceLoop_after_step)

lemma insertStatement_cases:
  "insertStatement x h n p = (x, h) \<or>
   (\<exists>ins q ss. insertions x n = Some ins \<and> isStatement h (NodeRef n) \<and>
      statementsOf h p = Some (q, ss) \<and>
      insertStatement x h n p =
        (x\<lparr>insertions := (insertions x)(n := None)\<rparr>,
         setField h q ''statements''
           (FArr (spliceInsert (indexOf (NodeRef n) ss + (if after ins then 1 else 0))
              (statement ins) ss))))"
proof (cases "insertions x n")
  case None
  then show ?thesis by (simp add: insertStatement_def)
next
  case (Some ins)
  show ?thesis
  proof (cases "isStatement h (NodeRef n)")
    case False
    then show ?thesis using Some by (simp add: insertStatement_def)
  next
    case True
    show ?thesis
    proof (cases "statementsOf h p")
      case None
      then show ?thesis using Some True by (simp add: insertStatement_def)
    next
      case (Some qs)
      then show ?thesis using \<open>insertions x n = Some ins\<close> True
        by (cases qs) (simp add: insertStatement_def)
    qed
  qed
qed

lemma insertStatement_queue:
  assumes "insertStatement x h n p = (x1, h1)"
  shows "replacements x1 = replacements x \<and> deletions x1 = deletions x \<and>
         (insertions x1 = insertions x \<or> insertions x1 = (insertions x)(n := None))"
  using insertStatement_cases [of x h n p] assms by auto


lemma replaceLoop_invariant_aux:
  assumes "replaceLoop lv st = Some fin"
  shows "(\<forall>t. I t \<longrightarrow> I (step lv t)) \<longrightarrow> I st \<longrightarrow> I fin"
proof (rule replaceLoop.raw_induct
    [where P = "\<lambda>l s f. (\<forall>t. I t \<longrightarrow> I (step l t)) \<longrightarrow> I s \<longrightarrow> I f", OF _ assms])
  fix loop :: "'a visitor \<Rightarrow> 'a tstate \<Rightarrow> 'a tstate option" and l s f
  assume IH: "\<And>s b y. loop s b = Some y \<Longrightarrow> (\<forall>t. I t \<longrightarrow> I (step s t)) \<longrightarrow> I b \<longrightarrow> I y"
    and eq: "(if worklist s = [] then Some s else loop l (step l s)) = Some f"
  show "(\<forall>t. I t \<longrightarrow> I (step l t)) \<longrightarrow> I s \<longrightarrow> I f"
  proof (intro impI)
    assume inv: "\<forall>t. I t \<longrightarrow> I (step l t)" and i: "I s"
    show "I f"
    proof (cases "worklist s = []")
      case True
      with eq have "s = f" by simp
      from this i show ?thesis by (rule subst)
    next
      case False
      with eq have l: "loop l (step l s) = Some f" by simp
      have "I (step l s)" by (rule inv [rule_format, OF i])
      moreover from IH [OF l] inv have "I (step l s) \<longrightarrow> I f" by (rule mp)
      ultimately show ?thesis by (rule rev_mp)
    qed
  qed
qed

lemma replaceLoop_invariant:
  assumes "replaceLoop lv st = Some fin"
      and "\<And>s. I s \<Longrightarrow> I (step lv s)"
      and "I st"
  shows "I fin"
proof -
  have "\<forall>t. I t \<longrightarrow> I (step lv t)" using assms(2) by (intro allI impI)
  with replaceLoop_invariant_aux [OF assms(1), of I] have "I st \<longrightarrow> I fin" by (rule mp)
  from this assms(3) show ?thesis by (rule mp)
qed

lemma leave_cases:
  "leave x h n p = (x, h, Undefined, True) \<and>
     nodeType h n = ''VariableDeclarationStatement'' \<and> emptyDeclarators h n
   \<or> (\<exists>v. \<not> (nodeType h n = ''VariableDeclarationStatement'' \<and> emptyDeclarators h n) \<and>
        replacements x n = Some v \<and>
        leave x h n p = (x\<lparr>replacements := (replacements x)(n := None)\<rparr>, h, v, False))
   \<or> (\<exists>x1 h1. \<not> (nodeType h n = ''VariableDeclarationStatement'' \<and> emptyDeclarators h n) \<and>
        replacements x n = None \<and> insertStatement x h n p = (x1, h1) \<and>
        leave x h n p =
          (if n \<in> deletions x1
           then (x1\<lparr>replacements := (replacements x1)(n := None)\<rparr>, h1, Undefined, True)
           else (x1, h1, Undefined, False)))"
proof (cases "nodeType h n = ''VariableDeclarationStatement'' \<and> emptyDeclarators h n")
  case True
  then show ?thesis by (simp add: leave_def)
next
  case False
  show ?thesis
  proof (cases "replacements x n")
    case None
    obtain x1 h1 where "insertStatement x h n p = (x1, h1)" by (cases "insertStatement x h n p")
    then show ?thesis using False None by (simp add: leave_def)
  next
    case (Some v)
    then show ?thesis using False by (simp add: leave_def)
  qed
qed

lemma leave_queue:
  assumes "leave x h n p = (x1, h1, t, rm)"
  shows "deletions x1 = deletions x
       \<and> (replacements x1 = replacements x \<or> replacements x1 = (replacements x)(n := None))
       \<and> (insertions x1 = insertions x \<or> insertions x1 = (insertions x)(n := None))"
proof -
  consider (a) "leave x h n p = (x, h, Undefined, True)"
    | (b) v where "leave x h n p = (x\<lparr>replacements := (replacements x)(n := None)\<rparr>, h, v, False)"
    | (c) y k where "insertStatement x h n p = (y, k)"
        "leave x h n p =
          (if n \<in> deletions y
           then (y\<lparr>replacements := (replacements y)(n := None)\<rparr>, k, Undefined, True)
           else (y, k, Undefined, False))"
    using leave_cases [of x h n p] by blast
  then show ?thesis
  proof cases
    case a
    then show ?thesis using assms by simp
  next
    case b
    then show ?thesis using assms by auto
  next
    case c
    have q: "replacements y = replacements x \<and> deletions y = deletions x \<and>
         (insertions y = insertions x \<or> insertions y = (insertions x)(n := None))"
      using c(1) by (rule insertStatement_queue)
    show ?thesis
    proof (cases "n \<in> deletions y")
      case True
      then have "x1 = y\<lparr>replacements := (replacements y)(n := None)\<rparr>" using c(2) assms by simp
      then show ?thesis using q by auto
    next
      case False
      then have "x1 = y" using c(2) assms by simp
      then show ?thesis using q by auto
    qed
  qed
qed


lemma ustate_slotReplace: "ustate (slotReplace sl v st) = ustate st"
  by (cases sl) (simp_all add: slotReplace_def split: option.splits fval.splits)

lemma ustate_removeElem: "ustate (removeElem sl st) = ustate st"
  by (cases sl) (simp_all add: removeElem_def ustate_slotReplace split: option.splits fval.splits)

lemma step_leaving:
  assumes "leaving st = Some (m, p)" and "lv (ustate st) (theap st) m p = (x1, h1, t, rm)"
  shows "ustate (step lv st) = x1"
proof -
  obtain wl sl ll where wl: "worklist st = Sentinel # wl" and ll: "leavelist st = (m, sl) # ll"
    and p: "p = (case ll of [] \<Rightarrow> Undefined | (q, _) # _ \<Rightarrow> NodeRef q)"
    using assms(1)
    by (auto simp: leaving_def split: list.splits element.splits)
  show ?thesis
    using assms(2) wl ll p
    by (simp add: step_def Let_def ustate_slotReplace ustate_removeElem)
qed

lemma step_not_leaving:
  assumes "leaving st = None"
  shows "ustate (step lv st) = ustate st"
proof (cases "worklist st")
  case Nil
  then show ?thesis by (simp add: step_def)
next
  case (Cons el wl)
  show ?thesis
  proof (cases el)
    case Sentinel
    then have "leavelist st = []" using assms Cons
      by (auto simp: leaving_def split: list.splits)
    then show ?thesis using Cons Sentinel by (simp add: step_def)
  next
    case (Element n sl)
    then show ?thesis using Cons by (simp add: step_def)
  qed
qed

lemma step_keeps_unqueued:
  "(replacements (ustate st) n = None \<longrightarrow> replacements (ustate (step leave st)) n = None)
   \<and> (insertions (ustate st) n = None \<longrightarrow> insertions (ustate (step leave st)) n = None)
   \<and> deletions (ustate (step leave st)) = deletions (ustate st)"
proof (cases "leaving st")
  case None
  then show ?thesis by (simp add: step_not_leaving)
next
  case (Some mp)
  obtain m p where mp: "mp = (m, p)" by (cases mp)
  obtain x1 h1 t rm where lv: "leave (ustate st) (theap st) m p = (x1, h1, t, rm)"
    by (cases "leave (ustate st) (theap st) m p")
  have u: "ustate (step leave st) = x1"
    using Some mp lv by (simp add: step_leaving)
  show ?thesis
    using leave_queue [OF lv] unfolding u by auto
qed

lemma step_replacementApplied:
  assumes "replacementApplied st n"
  shows "replacements (ustate (step leave st)) n = None"
proof -
  obtain p where l: "leaving st = Some (n, p)"
    and c: "\<not> emptyDeclaration (theap st) n"
    and r: "replacements (ustate st) n \<noteq> None"
    using assms by (auto simp: replacementApplied_def split: option.splits)
  obtain v where v: "replacements (ustate st) n = Some v" using r by blast
  have "leave (ustate st) (theap st) n p =
      ((ustate st)\<lparr>replacements := (replacements (ustate st))(n := None)\<rparr>, theap st, v, False)"
    using c v by (simp add: leave_def emptyDeclaration_def)
  then have "ustate (step leave st) = (ustate st)\<lparr>replacements := (replacements (ustate st))(n := None)\<rparr>"
    using l by (rule step_leaving [rotated])
  then show ?thesis by simp
qed

lemma step_insertionApplied:
  assumes "insertionApplied st n"
  shows "insertions (ustate (step leave st)) n = None"
proof -
  obtain p where l: "leaving st = Some (n, p)"
    and c: "\<not> emptyDeclaration (theap st) n"
    and r: "replacements (ustate st) n = None"
    and i: "insertions (ustate st) n \<noteq> None"
    and s: "isStatement (theap st) (NodeRef n)"
    and pp: "statementsOf (theap st) p \<noteq> None"
    using assms by (auto simp: insertionApplied_def split: option.splits)
  obtain ins where ins: "insertions (ustate st) n = Some ins" using i by blast
  obtain q ss where q: "statementsOf (theap st) p = Some (q, ss)"
    using pp by (cases "statementsOf (theap st) p") auto
  obtain x1 h1 where is1: "insertStatement (ustate st) (theap st) n p = (x1, h1)"
    by (cases "insertStatement (ustate st) (theap st) n p")
  then have x1: "insertions x1 n = None"
    using ins s q by (auto simp: insertStatement_def)
  obtain x2 h2 t rm where lv: "leave (ustate st) (theap st) n p = (x2, h2, t, rm)"
    by (cases "leave (ustate st) (theap st) n p")
  then have "insertions x2 = insertions x1"
    using c r is1 by (auto simp: leave_def emptyDeclaration_def split: if_splits)
  moreover have "ustate (step leave st) = x2" using l lv by (rule step_leaving)
  ultimately show ?thesis using x1 by simp
qed


lemma leave_shape:
  assumes "leave x h n p = (x1, h1, t, rm)"
  shows "\<exists>R I. x1 = x\<lparr>replacements := R, insertions := I\<rparr>"
proof -
  have is_shape: "\<exists>I. y = x\<lparr>insertions := I\<rparr>" if "insertStatement x h n p = (y, k)" for y k
  proof -
    from insertStatement_cases [of x h n p] that
    have "y = x \<or> y = x\<lparr>insertions := (insertions x)(n := None)\<rparr>" by auto
    then show ?thesis
    proof
      assume "y = x"
      then have "y = x\<lparr>insertions := insertions x\<rparr>" by simp
      then show ?thesis by blast
    qed blast
  qed
  consider (a) "leave x h n p = (x, h, Undefined, True)"
    | (b) v where "leave x h n p = (x\<lparr>replacements := (replacements x)(n := None)\<rparr>, h, v, False)"
    | (c) y k where "insertStatement x h n p = (y, k)"
        "leave x h n p =
          (if n \<in> deletions y
           then (y\<lparr>replacements := (replacements y)(n := None)\<rparr>, k, Undefined, True)
           else (y, k, Undefined, False))"
    using leave_cases [of x h n p] by blast
  then show ?thesis
  proof cases
    case a
    then have "x1 = x\<lparr>replacements := replacements x, insertions := insertions x\<rparr>"
      using assms by simp
    then show ?thesis by blast
  next
    case b
    then have "x1 = x\<lparr>replacements := (replacements x)(n := None), insertions := insertions x\<rparr>"
      using assms by simp
    then show ?thesis by blast
  next
    case c
    obtain I where y: "y = x\<lparr>insertions := I\<rparr>" using is_shape [OF c(1)] by blast
    show ?thesis
    proof (cases "n \<in> deletions y")
      case True
      then have "x1 = x\<lparr>replacements := (replacements x)(n := None), insertions := I\<rparr>"
        using c(2) assms y by simp
      then show ?thesis by blast
    next
      case False
      then have "x1 = x\<lparr>replacements := replacements x, insertions := I\<rparr>"
        using c(2) assms y by simp
      then show ?thesis by blast
    qed
  qed
qed

lemma step_shape:
  "\<exists>R I. ustate (step leave st) = (ustate st)\<lparr>replacements := R, insertions := I\<rparr>"
proof (cases "leaving st")
  case None
  then have "ustate (step leave st) =
      (ustate st)\<lparr>replacements := replacements (ustate st), insertions := insertions (ustate st)\<rparr>"
    by (simp add: step_not_leaving)
  then show ?thesis by blast
next
  case (Some mp)
  obtain m p where mp: "mp = (m, p)" by (cases mp)
  obtain x1 h1 t rm where lv: "leave (ustate st) (theap st) m p = (x1, h1, t, rm)"
    by (cases "leave (ustate st) (theap st) m p")
  have u: "ustate (step leave st) = x1"
    using Some mp lv by (simp add: step_leaving)
  show ?thesis using leave_shape [OF lv] unfolding u .
qed

lemma replaceLoop_shape:
  assumes "replaceLoop leave st = Some fin"
  shows "\<exists>R I. ustate fin = (ustate st)\<lparr>replacements := R, insertions := I\<rparr>"
proof (rule replaceLoop_invariant [OF assms,
      where I = "\<lambda>s. \<exists>R I. ustate s = (ustate st)\<lparr>replacements := R, insertions := I\<rparr>"])
  fix s :: "session tstate"
  assume "\<exists>R I. ustate s = (ustate st)\<lparr>replacements := R, insertions := I\<rparr>"
  then obtain R I where s: "ustate s = (ustate st)\<lparr>replacements := R, insertions := I\<rparr>" by blast
  obtain R' I' where "ustate (step leave s) = (ustate s)\<lparr>replacements := R', insertions := I'\<rparr>"
    using step_shape [of s] by blast
  then have "ustate (step leave s) = (ustate st)\<lparr>replacements := R', insertions := I'\<rparr>"
    using s by simp
  then show "\<exists>R I. ustate (step leave s) = (ustate st)\<lparr>replacements := R, insertions := I\<rparr>"
    by blast
next
  have "ustate st = (ustate st)\<lparr>replacements := replacements (ustate st),
      insertions := insertions (ustate st)\<rparr>" by simp
  then show "\<exists>R I. ustate st = (ustate st)\<lparr>replacements := R, insertions := I\<rparr>" by blast
qed

lemma commit_single_root:
  assumes c: "commit w s = Some w'" and ns: "nodes (sessions w s) = [NodeRef r]"
  shows "\<exists>fin pm. replaceLoop leave (initState (sessions w s) (heap w) r) = Some fin
         \<and> buildParentMap (theap fin) [NodeRef r] = Some pm
         \<and> w' = w\<lparr>heap := theap fin,
                    sessions := (sessions w)
                      (s := (ustate fin)\<lparr>lookupTable := None, parentMap := pm, dirty := False,
                                         nodes := [outerRoot fin]\<rparr>)\<rparr>"
proof -
  obtain x1 h1 result where m: "mapReplace (sessions w s) (heap w) [NodeRef r] = Some (x1, h1, result)"
    using c ns by (cases "mapReplace (sessions w s) (heap w) [NodeRef r]") (auto simp: commit_def)
  obtain fin where l: "replaceLoop leave (initState (sessions w s) (heap w) r) = Some fin"
    using m by (cases "replaceLoop leave (initState (sessions w s) (heap w) r)")
      (auto simp: traverserReplace_def)
  have r: "x1 = ustate fin" "h1 = theap fin" "result = [outerRoot fin]"
    using m l by (auto simp: traverserReplace_def)
  obtain R I where "ustate fin = (sessions w s)\<lparr>replacements := R, insertions := I\<rparr>"
    using replaceLoop_shape [OF l] by (auto simp: initState_def)
  then have nf: "nodes (ustate fin) = [NodeRef r]" using ns by simp
  let ?w1 = "w\<lparr>heap := h1, sessions := (sessions w)(s := x1\<lparr>lookupTable := None\<rparr>)\<rparr>"
  obtain w2 where rp: "rebuildParentMap ?w1 s = Some w2"
    using c ns m by (cases "rebuildParentMap ?w1 s") (auto simp: commit_def)
  obtain pm where pm: "buildParentMap (theap fin) [NodeRef r] = Some pm"
    using rp r nf by (cases "buildParentMap (theap fin) [NodeRef r]") (auto simp: rebuildParentMap_def)
  have w2: "w2 = updSession ?w1 s (\<lambda>x. x\<lparr>parentMap := pm\<rparr>)"
    using rp pm r nf by (simp add: rebuildParentMap_def)
  have "w' = updSession w2 s (\<lambda>y. y\<lparr>dirty := False, nodes := result\<rparr>)"
    using c ns m rp by (simp add: commit_def)
  then have "w' = w\<lparr>heap := theap fin,
                    sessions := (sessions w)
                      (s := (ustate fin)\<lparr>lookupTable := None, parentMap := pm, dirty := False,
                                         nodes := [outerRoot fin]\<rparr>)\<rparr>"
    using w2 r by (simp add: updSession_def)
  then show ?thesis using l pm by blast
qed


text \<open>
  The branches of \<open>leave\<close> that apply a replacement or an insertion delete its entry: when
  the commit returns, the replacements and the insertions hold no entry for a node whose
  replacement or insertion was applied in a round of that commit's traversal (the state after
  any number \<open>k\<close> of rounds), and the commit adds no entry to either.
\<close>

theorem applied_mutations_leave_the_queue:
  assumes g: "s = globalSession (sessions w s)"
      and d: "dirty (sessions w s)"
      and ns: "nodes (sessions w s) = [NodeRef r]"
      and c: "cleanup w s = Some w'"
  shows "(replacementApplied ((step leave ^^ k) (initState (sessions w s) (heap w) r)) n \<longrightarrow>
            replacements (sessions w' s) n = None)
       \<and> (insertionApplied ((step leave ^^ k) (initState (sessions w s) (heap w) r)) n \<longrightarrow>
            insertions (sessions w' s) n = None)
       \<and> (replacements (sessions w s) n = None \<longrightarrow> replacements (sessions w' s) n = None)
       \<and> (insertions (sessions w s) n = None \<longrightarrow> insertions (sessions w' s) n = None)"
proof -
  let ?st0 = "initState (sessions w s) (heap w) r"
  let ?stk = "(step leave ^^ k) ?st0"
  have "commit w s = Some w'" using c g d by (simp add: cleanup_global)
  then obtain fin pm where l: "replaceLoop leave ?st0 = Some fin"
    and w': "w' = w\<lparr>heap := theap fin,
                    sessions := (sessions w)
                      (s := (ustate fin)\<lparr>lookupTable := None, parentMap := pm, dirty := False,
                                         nodes := [outerRoot fin]\<rparr>)\<rparr>"
    using commit_single_root [OF _ ns] by blast
  have rq: "replacements (sessions w' s) = replacements (ustate fin)"
    and iq: "insertions (sessions w' s) = insertions (ustate fin)"
    using w' by simp_all
  have keepR: "replacements (ustate fin) n = None"
    if "replaceLoop leave st = Some fin" "replacements (ustate st) n = None" for st
  proof (rule replaceLoop_invariant
      [OF that(1), where I = "\<lambda>s. replacements (ustate s) n = None"])
    show "replacements (ustate (step leave t)) n = None"
      if "replacements (ustate t) n = None" for t :: "session tstate"
      using step_keeps_unqueued [of t n] that by blast
  qed (rule that(2))
  have keepI: "insertions (ustate fin) n = None"
    if "replaceLoop leave st = Some fin" "insertions (ustate st) n = None" for st
  proof (rule replaceLoop_invariant
      [OF that(1), where I = "\<lambda>s. insertions (ustate s) n = None"])
    show "insertions (ustate (step leave t)) n = None"
      if "insertions (ustate t) n = None" for t :: "session tstate"
      using step_keeps_unqueued [of t n] that by blast
  qed (rule that(2))
  have lk: "replaceLoop leave (step leave ?stk) = Some fin"
    using l by (simp add: replaceLoop_after_step replaceLoop_after_steps)
  have a: "replacements (sessions w' s) n = None" if "replacementApplied ?stk n"
    using keepR [OF lk step_replacementApplied [OF that]] rq by simp
  have b: "insertions (sessions w' s) n = None" if "insertionApplied ?stk n"
    using keepI [OF lk step_insertionApplied [OF that]] iq by simp
  have c': "replacements (sessions w' s) n = None" if "replacements (sessions w s) n = None"
    using keepR [OF l] that rq by (simp add: initState_def)
  have d': "insertions (sessions w' s) n = None" if "insertions (sessions w s) n = None"
    using keepI [OF l] that iq by (simp add: initState_def)
  show ?thesis using a b c' d' by blast
qed

lemmas eval_applied =
  replacementApplied_def insertionApplied_def leaving_def emptyDeclaration_def eval_nat_numeral

theorem applied_mutations_leave_the_queue_witness:
  "0 = globalSession (sessions exQueued 0)
   \<and> dirty (sessions exQueued 0)
   \<and> nodes (sessions exQueued 0) = [NodeRef 1]
   \<and> replacementApplied ((step leave ^^ 4) (initState (sessions exQueued 0) (heap exQueued) 1)) 2
   \<and> insertionApplied ((step leave ^^ 8) (initState (sessions exQueued 0) (heap exQueued) 1)) 4
   \<and> (\<exists>w'. cleanup exQueued 0 = Some w'
          \<and> replacements (sessions w' 0) 2 = None
          \<and> insertions (sessions w' 0) 4 = None
          \<and> getField (heap w') 1 ''statements'' =
              Some (FArr [NodeRef 8, NodeRef 4, NodeRef 8, NodeRef 6]))"
proof -
  have g: "0 = globalSession (sessions exQueued 0)"
    and d: "dirty (sessions exQueued 0)"
    and ns: "nodes (sessions exQueued 0) = [NodeRef 1]"
    by (simp_all add: exQueued_def eval_session eval_example)
  have ra: "replacementApplied ((step leave ^^ 4) (initState (sessions exQueued 0) (heap exQueued) 1)) 2"
    by (simp add: exQueued_def eval_session eval_commit eval_example eval_applied)
  have ia: "insertionApplied ((step leave ^^ 8) (initState (sessions exQueued 0) (heap exQueued) 1)) 4"
    by (simp add: exQueued_def eval_session eval_commit eval_example eval_applied)
  obtain w' where c: "cleanup exQueued 0 = Some w'"
    and st: "getField (heap w') 1 ''statements'' =
              Some (FArr [NodeRef 8, NodeRef 4, NodeRef 8, NodeRef 6])"
    by (simp add: exQueued_def eval_session eval_commit eval_example)
  have "replacements (sessions w' 0) 2 = None"
    using applied_mutations_leave_the_queue [OF g d ns c, of 4 2] ra by blast
  moreover have "insertions (sessions w' 0) 4 = None"
    using applied_mutations_leave_the_queue [OF g d ns c, of 8 4] ia by blast
  ultimately show ?thesis using g d ns ra ia c st by blast
qed

text \<open>
  Nothing clears the maps after the traversal: an insertion whose anchor has a parent without
  a statement list (the consequent of the \<open>if\<close>) is skipped and stays queued after the commit.
\<close>

theorem skipped_insertion_stays_queued:
  "\<exists>w1.
     append_op exExt exWorld 0 (SelNode 30) (ReplacerFn (\<lambda>h n. RvNode 8)) = Some (Inr w1)
     \<and> \<not> dirty (sessions w1 0)
     \<and> insertions (sessions w1 0) 30 = Some \<lparr>after = True, statement = NodeRef 8\<rparr>
     \<and> getField (heap w1) 6 ''consequent'' = Some (FOne (NodeRef 30))"
  by (simp add: eval_session eval_commit eval_example append_op_def insert_op_global
      findNodes_def getInsertion_def)

text \<open>
  C3. When the commit returns, a deletion that it applied should have left the deletion set,
  as an applied replacement and an applied insertion leave their maps. The deletion branch of
  \<open>leave\<close> calls \<open>replacements.delete(node)\<close> and removes the node, but never
  \<open>deletions.delete(node)\<close>: after \<open>delete(b)\<close> has been committed, \<open>b\<close> is out of the
  statement list and still in the deletions. When \<open>b\<close> is then inserted again after \<open>a\<close>,
  the next commit, of an insertion of \<open>x\<close> after the \<open>if\<close>, deletes \<open>b\<close> a second time.
\<close>

theorem applied_deletion_deletes_again:
  "\<exists>w1 w2 w3.
     delete exExt exWorld 0 (SelNode 4) = Some w1
     \<and> \<not> dirty (sessions w1 0)
     \<and> getField (heap w1) 1 ''statements'' = Some (FArr [NodeRef 2, NodeRef 6])
     \<and> 4 \<in> deletions (sessions w1 0)
     \<and> append_op exExt w1 0 (SelNode 2) (ReplacerFn (\<lambda>h n. RvNode 4)) = Some (Inr w2)
     \<and> \<not> dirty (sessions w2 0)
     \<and> getField (heap w2) 1 ''statements'' = Some (FArr [NodeRef 2, NodeRef 4, NodeRef 6])
     \<and> append_op exExt w2 0 (SelNode 6) (ReplacerFn (\<lambda>h n. RvNode 8)) = Some (Inr w3)
     \<and> \<not> dirty (sessions w3 0)
     \<and> getField (heap w3) 1 ''statements'' = Some (FArr [NodeRef 2, NodeRef 6, NodeRef 8])"
  by (simp add: eval_session eval_commit eval_example delete_def findNodes_def
      append_op_def insert_op_global getInsertion_def)


section \<open>Subsessions and the global session\<close>









section \<open>Inserting before and after a statement\<close>













lemma allNodes_child: "allNodes P h n \<Longrightarrow> c \<in> set (childRefs h n) \<Longrightarrow> allNodes P h c"
  by (erule allNodes.cases) simp







lemma finishes_list:
  assumes "\<forall>c \<in> set cs. finishes h c"
  shows "\<exists>pm'. buildParents h (map (\<lambda>c. (c, q)) cs @ wl) pm = buildParents h wl pm'"
  using assms
proof (induction cs arbitrary: pm)
  case Nil
  show ?case by (rule exI [of _ pm]) simp
next
  case (Cons c cs)
  have fc: "finishes h c" and rest: "\<forall>c \<in> set cs. finishes h c" using Cons.prems by simp_all
  obtain pm1 where a:
    "buildParents h ((c, q) # (map (\<lambda>c. (c, q)) cs @ wl)) pm =
     buildParents h (map (\<lambda>c. (c, q)) cs @ wl) pm1"
    using fc unfolding finishes_def by blast
  obtain pm2 where b:
    "buildParents h (map (\<lambda>c. (c, q)) cs @ wl) pm1 = buildParents h wl pm2"
    using Cons.IH [OF rest] by blast
  show ?case by (rule exI [of _ pm2]) (simp add: a b)
qed

lemma finishes_children:
  assumes "\<forall>c \<in> set (childRefs h n). finishes h c"
  shows "finishes h n"
  unfolding finishes_def
proof (intro allI)
  fix p wl pm
  obtain pm' where
    "buildParents h (map (\<lambda>c. (c, Some n)) (childRefs h n) @ wl)
       (case p of None \<Rightarrow> pm | Some q \<Rightarrow> pm(n \<mapsto> q)) = buildParents h wl pm'"
    using finishes_list [OF assms] by blast
  then have "buildParents h ((n, p) # wl) pm = buildParents h wl pm'"
    by (simp add: buildParents_Cons)
  then show "\<exists>pm'. buildParents h ((n, p) # wl) pm = buildParents h wl pm'" by blast
qed

lemma finishes_allNodes: "allNodes P h n \<Longrightarrow> finishes h n"
proof (induction rule: allNodes.induct)
  case (node n)
  then show ?case by (intro finishes_children) blast
qed

lemma buildParentMap_finishes:
  assumes "finishes h r"
  shows "\<exists>pm. buildParentMap h [NodeRef r] = Some pm"
proof -
  obtain pm' where "buildParents h ((r, None) # []) Map.empty = buildParents h [] pm'"
    using assms unfolding finishes_def by blast
  then show ?thesis by (simp add: buildParentMap_def buildParents_Nil)
qed

















lemma allNodes_of_children:
  assumes "P n" and "childRefs h n = cs" and "\<forall>c \<in> set cs. allNodes P h c"
  shows "allNodes P h n"
  using assms by (intro allNodes.node) simp_all




section \<open>Constructing sessions: what the root and a subsession accept\<close>

lemma buildParentMap_finite:
  assumes "\<forall>r \<in> set (cellRefs ns). allNodes P h r"
  shows "\<exists>pm. buildParentMap h ns = Some pm"
proof -
  have "\<forall>r \<in> set (cellRefs ns). finishes h r" using assms finishes_allNodes by blast
  then obtain pm' where
    "buildParents h (map (\<lambda>r. (r, None)) (cellRefs ns) @ []) Map.empty = buildParents h [] pm'"
    using finishes_list by blast
  then show ?thesis by (simp add: buildParentMap_def buildParents_Nil)
qed

text \<open>
  C10. A root session (no parent session) constructed from a list of nodes always throws a
  RefactorError, and a subsession constructed from a source text always throws (an \<open>Error\<close>),
  whatever the store and the sessions are. The root accepts a single node and a source text
  that parses, and a subsession accepts a node list (its strings dropped): over finite trees
  the constructor returns the new session over those nodes. For the subsession the global
  session of the parent has its root and an address other than the new one, as the constructor
  of a root leaves them. A source text that does not parse makes the root throw a
  RefactorError as well.
\<close>

theorem constructor_source_kinds:
  "construct e w (NodeList ys) \<lparr>autoCleanupCfg = ac, parentSession = None\<rparr> =
     Some (Inl (RefactorError
       ''Must initialize root session with a JavaScript source program (JS source or single Node)''))
   \<and> construct e w (SourceText t') \<lparr>autoCleanupCfg = ac, parentSession = Some p\<rparr> =
       Some (Inl (Error ''Can not initialize child RefactorSession with a new AST''))
   \<and> ((\<forall>r \<in> set (cellRefs (nodesOnly xs)). allNodes (\<lambda>m. True) (heap w) r)
        \<and> x_root (sessions w (globalSession (sessions w p))) = Some g
        \<and> globalSession (sessions w p) \<noteq> nextSid w \<longrightarrow>
       (\<exists>w'. construct e w (NodeList xs) \<lparr>autoCleanupCfg = ac, parentSession = Some p\<rparr> =
                  Some (Inr (w', nextSid w))
              \<and> nodes (sessions w' (nextSid w)) = nodesOnly xs
              \<and> globalSession (sessions w' (nextSid w)) = globalSession (sessions w p)))
   \<and> (allNodes (\<lambda>m. True) (heap w) n \<longrightarrow>
       (\<exists>w'. construct e w (SingleNode n) \<lparr>autoCleanupCfg = ac, parentSession = None\<rparr> =
                  Some (Inr (w', nextSid w))
              \<and> nodes (sessions w' (nextSid w)) = [NodeRef n]
              \<and> x_root (sessions w' (nextSid w)) = Some n
              \<and> globalSession (sessions w' (nextSid w)) = nextSid w
              \<and> nextSid w' = Suc (nextSid w)))
   \<and> (parseScript e (heap w) t = Inr (h, tree) \<and> allNodes (\<lambda>m. True) h tree \<longrightarrow>
       (\<exists>w'. construct e w (SourceText t) \<lparr>autoCleanupCfg = ac, parentSession = None\<rparr> =
                  Some (Inr (w', nextSid w))
              \<and> nodes (sessions w' (nextSid w)) = [NodeRef tree]
              \<and> x_root (sessions w' (nextSid w)) = Some tree
              \<and> globalSession (sessions w' (nextSid w)) = nextSid w
              \<and> nextSid w' = Suc (nextSid w)))
   \<and> (parseScript e (heap w) t = Inl msg \<longrightarrow>
       construct e w (SourceText t) \<lparr>autoCleanupCfg = ac, parentSession = None\<rparr> =
         Some (Inl (RefactorError (''Could not parse passed source: '' @ msg))))"
proof -
  have a: "construct e w (NodeList ys) \<lparr>autoCleanupCfg = ac, parentSession = None\<rparr> =
           Some (Inl (RefactorError
             ''Must initialize root session with a JavaScript source program (JS source or single Node)''))"
    by (simp add: construct_def constructNodes_def)
  have b: "construct e w (SourceText t') \<lparr>autoCleanupCfg = ac, parentSession = Some p\<rparr> =
           Some (Inl (Error ''Can not initialize child RefactorSession with a new AST''))"
    by (simp add: construct_def constructNodes_def)
  have c: "\<exists>w'. construct e w (NodeList xs) \<lparr>autoCleanupCfg = ac, parentSession = Some p\<rparr> =
                  Some (Inr (w', nextSid w))
              \<and> nodes (sessions w' (nextSid w)) = nodesOnly xs
              \<and> globalSession (sessions w' (nextSid w)) = globalSession (sessions w p)"
    if fin: "\<forall>r \<in> set (cellRefs (nodesOnly xs)). allNodes (\<lambda>m. True) (heap w) r"
      and groot: "x_root (sessions w (globalSession (sessions w p))) = Some g"
      and fresh: "globalSession (sessions w p) \<noteq> nextSid w"
  proof -
    obtain pm where sub: "buildParentMap (heap w) (nodesOnly xs) = Some pm"
      using buildParentMap_finite [OF fin] by blast
    show ?thesis
      using sub groot fresh
      by (simp add: construct_def constructNodes_def rebuildParentMap_def updSession_def
          applyAutoCleanup_def newSession_def getLookupTable_def root_own root_delegate
          rebuildScopeMap_def Let_def recurse_fields split: option.splits bool.splits)
  qed
  have d: "\<exists>w'. construct e w (SingleNode n) \<lparr>autoCleanupCfg = ac, parentSession = None\<rparr> =
                  Some (Inr (w', nextSid w))
              \<and> nodes (sessions w' (nextSid w)) = [NodeRef n]
              \<and> x_root (sessions w' (nextSid w)) = Some n
              \<and> globalSession (sessions w' (nextSid w)) = nextSid w
              \<and> nextSid w' = Suc (nextSid w)"
    if fin: "allNodes (\<lambda>m. True) (heap w) n"
  proof -
    obtain pm1 where single: "buildParentMap (heap w) [NodeRef n] = Some pm1"
      using buildParentMap_finishes [OF finishes_allNodes [OF fin]] by blast
    show ?thesis
      using single
      by (simp add: construct_def constructNodes_def rebuildParentMap_def updSession_def
          applyAutoCleanup_def newSession_def getLookupTable_def root_own
          rebuildScopeMap_def Let_def recurse_fields split: option.splits bool.splits)
  qed
  have f: "\<exists>w'. construct e w (SourceText t) \<lparr>autoCleanupCfg = ac, parentSession = None\<rparr> =
                  Some (Inr (w', nextSid w))
              \<and> nodes (sessions w' (nextSid w)) = [NodeRef tree]
              \<and> x_root (sessions w' (nextSid w)) = Some tree
              \<and> globalSession (sessions w' (nextSid w)) = nextSid w
              \<and> nextSid w' = Suc (nextSid w)"
    if parsed: "parseScript e (heap w) t = Inr (h, tree)"
      and fin: "allNodes (\<lambda>m. True) h tree"
  proof -
    obtain pm2 where ptext: "buildParentMap h [NodeRef tree] = Some pm2"
      using buildParentMap_finishes [OF finishes_allNodes [OF fin]] by blast
    show ?thesis
      using parsed ptext
      by (simp add: construct_def constructNodes_def rebuildParentMap_def updSession_def
          applyAutoCleanup_def newSession_def getLookupTable_def root_own
          rebuildScopeMap_def Let_def recurse_fields split: option.splits bool.splits)
  qed
  have k: "construct e w (SourceText t) \<lparr>autoCleanupCfg = ac, parentSession = None\<rparr> =
         Some (Inl (RefactorError (''Could not parse passed source: '' @ msg)))"
    if "parseScript e (heap w) t = Inl msg"
    using that by (simp add: construct_def constructNodes_def)
  show ?thesis using a b c d f k by blast
qed


theorem constructor_source_kinds_witness:
  "construct exExt exWorld0 (NodeList [Inr (NodeRef 2)]) \<lparr>autoCleanupCfg = None, parentSession = None\<rparr> =
       Some (Inl (RefactorError
         ''Must initialize root session with a JavaScript source program (JS source or single Node)''))
   \<and> construct exExt exWorld0 (SourceText ''a'') \<lparr>autoCleanupCfg = None, parentSession = Some 0\<rparr> =
       Some (Inl (Error ''Can not initialize child RefactorSession with a new AST''))
   \<and> allNodes (\<lambda>m. True) (heap exWorld) 2
   \<and> allNodes (\<lambda>m. True) (heap exWorld) 6
   \<and> x_root (sessions exWorld (globalSession (sessions exWorld 0))) = Some 1
   \<and> globalSession (sessions exWorld 0) \<noteq> nextSid exWorld
   \<and> (\<exists>w'. construct exExt exWorld (NodeList [Inr (NodeRef 2), Inl ''b'', Inr (NodeRef 6)])
               \<lparr>autoCleanupCfg = None, parentSession = Some 0\<rparr> = Some (Inr (w', 1))
          \<and> nodes (sessions w' 1) = [NodeRef 2, NodeRef 6]
          \<and> globalSession (sessions w' 1) = 0)
   \<and> allNodes (\<lambda>m. True) (heap exWorld0) 1
   \<and> (\<exists>w'. construct exExt exWorld0 (SingleNode 1) \<lparr>autoCleanupCfg = None, parentSession = None\<rparr> =
               Some (Inr (w', 0))
          \<and> nodes (sessions w' 0) = [NodeRef 1]
          \<and> x_root (sessions w' 0) = Some 1
          \<and> globalSession (sessions w' 0) = 0
          \<and> nextSid w' = 1)
   \<and> (\<exists>h. parseScript exExt (heap exWorld0) ''x'' = Inr (h, 10) \<and> allNodes (\<lambda>m. True) h 10)
   \<and> (\<exists>w'. construct exExt exWorld0 (SourceText ''x'') \<lparr>autoCleanupCfg = None, parentSession = None\<rparr> =
               Some (Inr (w', 0))
          \<and> nodes (sessions w' 0) = [NodeRef 10]
          \<and> x_root (sessions w' 0) = Some 10
          \<and> globalSession (sessions w' 0) = 0
          \<and> nextSid w' = 1)
   \<and> parseScript exExt (heap exWorld0) ''zz'' = Inl ''Unexpected token''
   \<and> construct exExt exWorld0 (SourceText ''zz'') \<lparr>autoCleanupCfg = None, parentSession = None\<rparr> =
       Some (Inl (RefactorError ''Could not parse passed source: Unexpected token''))"
proof -
  have hp: "heap exWorld = exHeap" and hp0: "heap exWorld0 = exHeap"
    by (simp_all add: exWorld_def exWorld0_def)
  have a3: "allNodes (\<lambda>m. True) exHeap 3"
    by (rule allNodes_of_children [where cs = "[]"]) (simp_all add: childRefs_def exHeap_def)
  have a2: "allNodes (\<lambda>m. True) exHeap 2"
    using a3 by (intro allNodes_of_children [where cs = "[3]"]) (simp_all add: childRefs_def exHeap_def)
  have a5: "allNodes (\<lambda>m. True) exHeap 5"
    by (rule allNodes_of_children [where cs = "[]"]) (simp_all add: childRefs_def exHeap_def)
  have a4: "allNodes (\<lambda>m. True) exHeap 4"
    using a5 by (intro allNodes_of_children [where cs = "[5]"]) (simp_all add: childRefs_def exHeap_def)
  have a7: "allNodes (\<lambda>m. True) exHeap 7"
    by (rule allNodes_of_children [where cs = "[]"]) (simp_all add: childRefs_def exHeap_def)
  have a31: "allNodes (\<lambda>m. True) exHeap 31"
    by (rule allNodes_of_children [where cs = "[]"]) (simp_all add: childRefs_def exHeap_def)
  have a30: "allNodes (\<lambda>m. True) exHeap 30"
    using a31 by (intro allNodes_of_children [where cs = "[31]"]) (simp_all add: childRefs_def exHeap_def)
  have a6: "allNodes (\<lambda>m. True) exHeap 6"
    using a7 a30 by (intro allNodes_of_children [where cs = "[7, 30]"]) (simp_all add: childRefs_def exHeap_def)
  have a1: "allNodes (\<lambda>m. True) exHeap 1"
    using a2 a4 a6 by (intro allNodes_of_children [where cs = "[2, 4, 6]"]) (simp_all add: childRefs_def exHeap_def)
  obtain h where ps: "parseScript exExt (heap exWorld0) ''x'' = Inr (h, 10)"
      and hdef: "h = exHeap
               (10 \<mapsto> \<lparr>otype = ''Script'',
                       ofields = [(''directives'', FArr []), (''statements'', FArr [NodeRef 11])]\<rparr>,
               11 \<mapsto> \<lparr>otype = ''ExpressionStatement'',
                       ofields = [(''expression'', FOne (NodeRef 12))]\<rparr>,
               12 \<mapsto> \<lparr>otype = ''IdentifierExpression'', ofields = [(''name'', FStr ''x'')]\<rparr>)"
    by (simp add: exExt_def exParse_def exWorld0_def)
  have b12: "allNodes (\<lambda>m. True) h 12"
    by (rule allNodes_of_children [where cs = "[]"]) (simp_all add: childRefs_def hdef)
  have b11: "allNodes (\<lambda>m. True) h 11"
    using b12 by (intro allNodes_of_children [where cs = "[12]"]) (simp_all add: childRefs_def hdef)
  have b10: "allNodes (\<lambda>m. True) h 10"
    using b11 by (intro allNodes_of_children [where cs = "[11]"]) (simp_all add: childRefs_def hdef)
  have pz: "parseScript exExt (heap exWorld0) ''zz'' = Inl ''Unexpected token''"
    by (simp add: exExt_def exParse_def)
  have gr: "x_root (sessions exWorld (globalSession (sessions exWorld 0))) = Some 1"
    and fr: "globalSession (sessions exWorld 0) \<noteq> nextSid exWorld"
    and g0: "globalSession (sessions exWorld 0) = 0"
    and n1: "nextSid exWorld = 1" and n0: "nextSid exWorld0 = 0"
    by (simp_all add: exWorld_def exWorld0_def)
  note sub = constructor_source_kinds [of exExt exWorld _ None _ 0
      "[Inr (NodeRef 2), Inl ''b'', Inr (NodeRef 6)]" 1]
  note top = constructor_source_kinds [of exExt exWorld0 "[Inr (NodeRef 2)]" None "''a''" 0
      _ _ 1 "''x''" h 10]
  note bad = constructor_source_kinds [of exExt exWorld0 _ None _ _ _ _ _ "''zz''" _ _
      "''Unexpected token''"]
  have s: "\<exists>w'. construct exExt exWorld (NodeList [Inr (NodeRef 2), Inl ''b'', Inr (NodeRef 6)])
               \<lparr>autoCleanupCfg = None, parentSession = Some 0\<rparr> = Some (Inr (w', 1))
          \<and> nodes (sessions w' 1) = [NodeRef 2, NodeRef 6]
          \<and> globalSession (sessions w' 1) = 0"
    using sub a2 a6 gr fr by (simp add: hp n1 g0)
  have t: "construct exExt exWorld0 (NodeList [Inr (NodeRef 2)]) \<lparr>autoCleanupCfg = None, parentSession = None\<rparr> =
       Some (Inl (RefactorError
         ''Must initialize root session with a JavaScript source program (JS source or single Node)''))
   \<and> construct exExt exWorld0 (SourceText ''a'') \<lparr>autoCleanupCfg = None, parentSession = Some 0\<rparr> =
       Some (Inl (Error ''Can not initialize child RefactorSession with a new AST''))
   \<and> (\<exists>w'. construct exExt exWorld0 (SingleNode 1) \<lparr>autoCleanupCfg = None, parentSession = None\<rparr> =
               Some (Inr (w', 0))
          \<and> nodes (sessions w' 0) = [NodeRef 1]
          \<and> x_root (sessions w' 0) = Some 1
          \<and> globalSession (sessions w' 0) = 0
          \<and> nextSid w' = 1)
   \<and> (\<exists>w'. construct exExt exWorld0 (SourceText ''x'') \<lparr>autoCleanupCfg = None, parentSession = None\<rparr> =
               Some (Inr (w', 0))
          \<and> nodes (sessions w' 0) = [NodeRef 10]
          \<and> x_root (sessions w' 0) = Some 10
          \<and> globalSession (sessions w' 0) = 0
          \<and> nextSid w' = 1)"
    using top a1 ps b10 by (simp add: hp0 n0)
  have z: "construct exExt exWorld0 (SourceText ''zz'') \<lparr>autoCleanupCfg = None, parentSession = None\<rparr> =
       Some (Inl (RefactorError ''Could not parse passed source: Unexpected token''))"
    using bad pz by simp
  show ?thesis using s t z a2 a6 a1 gr fr ps b10 pz by (simp add: hp hp0)
qed

end
